theory Spec2Isabelle
  imports Complex_Main
begin

section \<open>Data model of the book scene (src/script.js, class Texture)\<close>

text \<open>
  Numbers are JavaScript doubles in the source; they are modelled as reals, so rounding
  is abstracted away. Book instances are addressed by their slot in \<open>bookInstances\<close>;
  a slot that is still \<open>null\<close> is \<open>None\<close>.
\<close>

record vec3 =
  vec_x :: real
  vec_y :: real
  vec_z :: real

text \<open>A three.js AnimationAction, reduced to the fields the source reads and writes.\<close>

record action =
  time :: real
  timeScale :: real
  paused :: bool

record animObj =
  action :: action
  originalDuration :: real

text \<open>
  Callbacks are closures in the source. The only closure the source itself passes is
  \<open>checkAllClosed\<close>, one per close-all operation (identified by the position of its
  environment in \<open>closeOps\<close>); \<open>External n\<close> stands for any other caller-supplied function,
  of which the model records only that it was called.
\<close>

datatype callback = CheckAllClosed nat | External nat

text \<open>The tweens added to a GSAP timeline: target book slot, duration and end values.\<close>

datatype tween =
    RotationTo nat real vec3
  | RotationZTo nat real real
  | PositionTo nat real vec3
  | PositionXTo nat real real

text \<open>
  A book's open/close GSAP timeline. \<open>tl_callback\<close> is the \<open>callback\<close> variable captured
  by the \<open>onReverseComplete\<close> closure when the timeline was built.
\<close>

record timeline =
  tl_callback :: "callback option"
  tl_tweens :: "tween list"
  tl_paused :: bool
  tl_progress :: real
  tl_timeScale :: real
  tl_reversed :: bool

record book =
  scene_position :: vec3
  scene_rotation :: vec3
  index :: nat
  animationActions :: "animObj list"
  isOpen :: bool
  isClickPlaying :: bool
  isHoverPlaying :: bool
  openTimeline :: "timeline option"

text \<open>
  The method slot \<open>this.checkAnimationProgress\<close>: the class method, or a replacement
  installed by a closing toggle around the previous occupant of the slot, for the book
  in slot \<open>i\<close> and the callback of that toggle.
\<close>

datatype checker = Original | Patched checker nat "callback option"

text \<open>
  The closure environment and promise of one close-all operation: \<open>closedCount\<close>,
  \<open>openBookIndices.length\<close>, and how often \<open>resolve()\<close> was called (the promise is
  resolved as soon as this is positive).
\<close>

record closeOp =
  closedCount :: nat
  openCount :: nat
  resolveCalls :: nat

text \<open>What \<open>closeAllOpenBooksWithPromise\<close> returns: \<open>Promise.resolve()\<close> or an aggregate promise.\<close>

datatype promise = Resolved | Aggregate nat

text \<open>
  Continuations that the source has registered and that the promise machinery or GSAP
  will run later: the \<open>then\<close> handler of the recovery (with its captured
  \<open>targetProgress\<close>), the position transition (its tweens and \<open>targetProgress\<close>), and the
  scroll tween (\<open>startScrollY\<close>, \<open>endScrollY\<close>).
\<close>

datatype pending =
    ThenRecovery promise real
  | PositionTransition "tween list" real
  | ScrollTween real real

record texture =
  bookInstances :: "book option list"
  isClosingFromScroll :: bool
  bookClosePromise :: "nat option"
  lastCalculatedPositions :: "(real \<times> real) list"
  currentHoveredIndex :: int
  canInteract :: bool
  camera_x :: real
  checker :: checker
  lastProgress :: real
  scrollTrigger_enabled :: bool
  scroll_start :: real
  scroll_end :: real
  scrollY :: real
  closeOps :: "closeOp list"
  callLog :: "callback list"
  pendings :: "pending list"

definition bookAt :: "texture \<Rightarrow> nat \<Rightarrow> book option" where
  "bookAt s i = (if i < length (bookInstances s) then bookInstances s ! i else None)"

definition setBook :: "nat \<Rightarrow> book \<Rightarrow> texture \<Rightarrow> texture" where
  "setBook i b s = s\<lparr>bookInstances := (bookInstances s)[i := Some b]\<rparr>"

section \<open>Orbit placement\<close>

definition degToRad :: "real \<Rightarrow> real" where
  "degToRad deg = deg * (pi / 180)"

record ellipseConfig =
  centerX :: real
  centerY :: real
  radiusX :: real
  radiusY :: real

record angleConfig =
  start :: real
  endX :: real
  endY :: real

definition ellipseConfigs :: "ellipseConfig list" where
  "ellipseConfigs =
    [\<lparr>centerX = 0, centerY = 0, radiusX = 13 / 10, radiusY = 7 / 10\<rparr>,
     \<lparr>centerX = 0, centerY = 0, radiusX = 11 / 10, radiusY = 5 / 10\<rparr>,
     \<lparr>centerX = 0, centerY = 0, radiusX = 9 / 10, radiusY = 4 / 10\<rparr>,
     \<lparr>centerX = 0, centerY = 0, radiusX = 7 / 10, radiusY = 3 / 10\<rparr>]"

definition angleConfigs :: "angleConfig list" where
  "angleConfigs =
    [\<lparr>start = - pi * 1, endX = - pi * (22 / 10), endY = - pi * (214 / 100)\<rparr>,
     \<lparr>start = - pi * (12 / 10), endX = - pi * (235 / 100), endY = - pi * (22 / 10)\<rparr>,
     \<lparr>start = - pi * (14 / 10), endX = - pi * (25 / 10), endY = - pi * (2265 / 1000)\<rparr>,
     \<lparr>start = - pi * (16 / 10), endX = - pi * (28 / 10), endY = - pi * (245 / 100)\<rparr>]"

text \<open>\<open>this.books.length\<close>: the constructor lists four books.\<close>

definition books_length :: nat where
  "books_length = 4"

text \<open>
  The ellipse computation that \<open>updateBookPositions\<close> and
  \<open>calculateBookPositionsForProgress\<close> both contain. Reading \<open>angleConfigs[i]\<close> past the
  end gives \<open>undefined\<close>, and destructuring it throws: that is \<open>None\<close>.
\<close>

definition place :: "real \<Rightarrow> nat \<Rightarrow> (real \<times> real) option" where
  "place progress i =
     (if i < length angleConfigs \<and> i < length ellipseConfigs then
        let a = angleConfigs ! i;
            e = ellipseConfigs ! i;
            angleX = start a + (endX a - start a) * progress;
            angleY = start a + (endY a - start a) * progress
        in Some (centerX e + radiusX e * cos angleX, centerY e + radiusY e * sin angleY)
      else None)"

text \<open>
  The loop runs for \<open>i < this.books.length\<close>, where every \<open>place\<close> is defined; the result
  is stored in \<open>lastCalculatedPositions\<close> and returned.
\<close>

definition calculateBookPositionsForProgress ::
    "real \<Rightarrow> texture \<Rightarrow> (real \<times> real) list \<times> texture" where
  "calculateBookPositionsForProgress progress s =
     (let positions = List.map_filter (place progress) [0..<books_length]
      in (positions, s\<lparr>lastCalculatedPositions := positions\<rparr>))"

text \<open>The body of the \<open>forEach\<close> in \<open>updateBookPositions\<close> for a loaded book.\<close>

definition orbitWrite :: "real \<Rightarrow> nat \<Rightarrow> real \<times> real \<Rightarrow> book \<Rightarrow> book" where
  "orbitWrite progress i xy b =
     (if \<not> isOpen b \<and> \<not> isClickPlaying b then
        b\<lparr>scene_position := \<lparr>vec_x = fst xy, vec_y = snd xy, vec_z = vec_z (scene_position b)\<rparr>,
          scene_rotation := \<lparr>vec_x = progress * degToRad 90, vec_y = 0,
                             vec_z = progress * degToRad (- 28 - real i * 20)\<rparr>\<rparr>
      else b)"

fun updateBooksFrom :: "real \<Rightarrow> nat \<Rightarrow> book option list \<Rightarrow> book option list option" where
  "updateBooksFrom progress i [] = Some []"
| "updateBooksFrom progress i (None # bs) =
     map_option ((#) None) (updateBooksFrom progress (Suc i) bs)"
| "updateBooksFrom progress i (Some b # bs) =
     (case place progress i of
        None \<Rightarrow> None
      | Some xy \<Rightarrow>
          map_option ((#) (Some (orbitWrite progress i xy b)))
            (updateBooksFrom progress (Suc i) bs))"

text \<open>\<open>None\<close> is the TypeError of a loaded book in a slot without configuration.\<close>

definition updateBookPositions :: "real \<Rightarrow> texture \<Rightarrow> texture option" where
  "updateBookPositions progress s =
     map_option (\<lambda>bs. s\<lparr>camera_x := 14 / 10 - progress, bookInstances := bs\<rparr>)
       (updateBooksFrom progress 0 (bookInstances s))"

section \<open>Callbacks and the aggregate close-all counter\<close>

text \<open>
  The closure \<open>checkAllClosed\<close> of close-all operation \<open>k\<close>: count one completion and,
  once the count reaches the number of books that were open, clear
  \<open>bookClosePromise\<close> and call \<open>resolve()\<close>.
\<close>

definition checkAllClosed :: "nat \<Rightarrow> texture \<Rightarrow> texture" where
  "checkAllClosed k s =
     (if k < length (closeOps s) then
        let c = closeOps s ! k;
            c1 = c\<lparr>closedCount := closedCount c + 1\<rparr>
        in if closedCount c1 \<ge> openCount c1 then
             s\<lparr>closeOps := (closeOps s)[k := c1\<lparr>resolveCalls := resolveCalls c1 + 1\<rparr>],
               bookClosePromise := None\<rparr>
           else s\<lparr>closeOps := (closeOps s)[k := c1]\<rparr>
      else s)"

definition invokeCallback :: "callback \<Rightarrow> texture \<Rightarrow> texture" where
  "invokeCallback c s =
     (let s1 = s\<lparr>callLog := callLog s @ [c]\<rparr>
      in case c of CheckAllClosed k \<Rightarrow> checkAllClosed k s1 | External n \<Rightarrow> s1)"

text \<open>\<open>if (callback) callback();\<close>\<close>

definition callMaybe :: "callback option \<Rightarrow> texture \<Rightarrow> texture" where
  "callMaybe cb s = (case cb of None \<Rightarrow> s | Some c \<Rightarrow> invokeCallback c s)"

definition promiseResolved :: "promise \<Rightarrow> texture \<Rightarrow> bool" where
  "promiseResolved p s =
     (case p of
        Resolved \<Rightarrow> True
      | Aggregate k \<Rightarrow> k < length (closeOps s) \<and> 0 < resolveCalls (closeOps s ! k))"

section \<open>The per-frame clamp check\<close>

definition clickPlayPercentage :: real where
  "clickPlayPercentage = 9 / 10"

definition hoverPlayPercentage :: real where
  "hoverPlayPercentage = 2 / 10"

definition setAction :: "nat \<Rightarrow> action \<Rightarrow> book \<Rightarrow> book" where
  "setAction k a b =
     b\<lparr>animationActions := (animationActions b)[k := (animationActions b ! k)\<lparr>action := a\<rparr>]\<rparr>"

text \<open>
  The body of the \<open>forEach\<close> of \<open>checkAnimationProgress\<close> for the clip at position \<open>k\<close>.
  \<open>currentTime\<close> is read once, before either branch; the flags are read from the book
  as the earlier clips and the click branch left them.
\<close>

definition checkAction :: "nat \<Rightarrow> book \<Rightarrow> book" where
  "checkAction k b =
     (let animO = animationActions b ! k;
          currentTime = time (action animO);
          b1 = (if isClickPlaying b then
                  let forwardLimit = originalDuration animO * clickPlayPercentage;
                      reverseLimit = 0
                  in if timeScale (action animO) > 0 \<and> currentTime \<ge> forwardLimit then
                       (setAction k ((action animO)\<lparr>paused := True, time := forwardLimit\<rparr>) b)
                         \<lparr>isClickPlaying := False, isOpen := True\<rparr>
                     else if timeScale (action animO) < 0 \<and> currentTime \<le> reverseLimit then
                       (setAction k ((action animO)\<lparr>paused := True, time := reverseLimit\<rparr>) b)
                         \<lparr>isClickPlaying := False, isOpen := False\<rparr>
                     else b
                else b);
          act1 = action (animationActions b1 ! k)
      in if isHoverPlaying b1 then
           let hoverForwardLimit = originalDuration animO * hoverPlayPercentage;
               hoverReverseLimit = 0
           in if timeScale act1 > 0 \<and> currentTime \<ge> hoverForwardLimit then
                (setAction k (act1\<lparr>paused := True, time := hoverForwardLimit\<rparr>) b1)
                  \<lparr>isHoverPlaying := False\<rparr>
              else if timeScale act1 < 0 \<and> currentTime \<le> hoverReverseLimit then
                (setAction k (act1\<lparr>paused := True, time := hoverReverseLimit\<rparr>) b1)
                  \<lparr>isHoverPlaying := False\<rparr>
              else b1
         else b1)"

definition checkAnimationProgress :: "book \<Rightarrow> book" where
  "checkAnimationProgress b = fold checkAction [0..<length (animationActions b)] b"

text \<open>
  Calling whatever occupies the slot \<open>this.checkAnimationProgress\<close> on the book in slot
  \<open>j\<close>. A replacement first calls the function it replaced, then, if the checked book is
  its own book and that book is neither click-playing nor open, puts the function it
  replaced back into the slot and calls its callback.
\<close>

fun runChecker :: "checker \<Rightarrow> nat \<Rightarrow> texture \<Rightarrow> texture" where
  "runChecker Original j s =
     (case bookAt s j of None \<Rightarrow> s | Some b \<Rightarrow> setBook j (checkAnimationProgress b) s)"
| "runChecker (Patched orig i cb) j s =
     (let s1 = runChecker orig j s
      in if j = i \<and> (case bookAt s1 i of
                        None \<Rightarrow> False
                      | Some b \<Rightarrow> \<not> isClickPlaying b \<and> \<not> isOpen b)
         then callMaybe cb (s1\<lparr>checker := orig\<rparr>)
         else s1)"

text \<open>
  Modelled from the spec: the Clip Player's advance (three.js \<open>AnimationMixer.update\<close>,
  a library that is not part of the sources): every clip that is not paused advances by
  the elapsed time in its direction.
\<close>

definition mixer_update :: "real \<Rightarrow> book \<Rightarrow> book" where
  "mixer_update deltaTime b =
     b\<lparr>animationActions :=
         map (\<lambda>animO. if paused (action animO) then animO
                      else animO\<lparr>action := (action animO)
                             \<lparr>time := time (action animO) + deltaTime * timeScale (action animO)\<rparr>\<rparr>)
           (animationActions b)\<rparr>"

definition animateBook :: "real \<Rightarrow> nat \<Rightarrow> texture \<Rightarrow> texture" where
  "animateBook deltaTime i s =
     (case bookAt s i of
        None \<Rightarrow> s
      | Some b \<Rightarrow>
          if isClickPlaying b \<or> isHoverPlaying b then
            let s1 = setBook i (mixer_update deltaTime b) s
            in runChecker (checker s1) i s1
          else s)"

definition animate :: "real \<Rightarrow> texture \<Rightarrow> texture" where
  "animate deltaTime s = fold (animateBook deltaTime) [0..<length (bookInstances s)] s"

section \<open>The toggle operation\<close>

text \<open>
  The timeline built on the first toggle of the book in slot \<open>bookIndex\<close>: the rotation
  and centring tweens of the book, one off-stage tween for every other loaded book, and
  \<open>pause(0)\<close>.
\<close>

definition buildOpenTimeline :: "nat \<Rightarrow> callback option \<Rightarrow> texture \<Rightarrow> timeline" where
  "buildOpenTimeline bookIndex cb s =
     \<lparr>tl_callback = cb,
      tl_tweens =
        [RotationZTo bookIndex (5 / 10) 0,
         PositionTo bookIndex 2 \<lparr>vec_x = 4 / 10, vec_y = 0, vec_z = 5 / 10\<rparr>] @
        map (\<lambda>i. PositionXTo i 3 (if i < bookIndex then 5 else - 5))
          (filter (\<lambda>i. bookAt s i \<noteq> None \<and> i \<noteq> bookIndex) [0..<length (bookInstances s)]),
      tl_paused = True, tl_progress = 0, tl_timeScale = 1, tl_reversed = False\<rparr>"

definition setAllActions :: "(action \<Rightarrow> action) \<Rightarrow> book \<Rightarrow> book" where
  "setAllActions f b =
     b\<lparr>animationActions := map (\<lambda>animO. animO\<lparr>action := f (action animO)\<rparr>) (animationActions b)\<rparr>"

text \<open>The \<open>onComplete\<close> and \<open>onReverseComplete\<close> closures of the book's timeline.\<close>

definition openTimeline_onComplete :: "nat \<Rightarrow> texture \<Rightarrow> texture" where
  "openTimeline_onComplete i s =
     (case bookAt s i of
        None \<Rightarrow> s
      | Some b \<Rightarrow>
          (case openTimeline b of
             None \<Rightarrow> s
           | Some tline \<Rightarrow>
               setBook i (b\<lparr>openTimeline := Some (tline\<lparr>tl_paused := True, tl_progress := 1\<rparr>)\<rparr>) s))"

definition openTimeline_onReverseComplete :: "nat \<Rightarrow> texture \<Rightarrow> texture" where
  "openTimeline_onReverseComplete i s =
     (case bookAt s i of
        None \<Rightarrow> s
      | Some b \<Rightarrow>
          (case openTimeline b of
             None \<Rightarrow> s
           | Some tline \<Rightarrow>
               callMaybe (tl_callback tline)
                 (setBook i
                    (b\<lparr>openTimeline := Some (tline\<lparr>tl_paused := True, tl_progress := 0\<rparr>)\<rparr>) s)))"


text \<open>Applying a GSAP setter to the timeline of the book in slot \<open>i\<close>, if there is one.\<close>

definition updTimeline :: "nat \<Rightarrow> (timeline \<Rightarrow> timeline) \<Rightarrow> texture \<Rightarrow> texture" where
  "updTimeline i f s =
     (case bookAt s i of
        None \<Rightarrow> s
      | Some b \<Rightarrow>
          (case openTimeline b of
             None \<Rightarrow> s
           | Some tline \<Rightarrow> setBook i (b\<lparr>openTimeline := Some (f tline)\<rparr>) s))"

text \<open>
  The toggle, statement by statement. \<open>progress(0)\<close> and \<open>progress(1)\<close> are GSAP calls that
  render the timeline at once: moved to its start from a later position, the timeline
  calls its \<open>onReverseComplete\<close> (which pauses it and calls the captured callback) before
  \<open>play()\<close> runs; moved to its end from an earlier position, it calls its \<open>onComplete\<close>
  before \<open>reverse()\<close> runs. \<open>tl_progress\<close> is the position the timeline had reached.
\<close>

definition toggleBookAnimationWithCallback :: "nat \<Rightarrow> callback option \<Rightarrow> texture \<Rightarrow> texture" where
  "toggleBookAnimationWithCallback bookIndex cb s =
     (case bookAt s bookIndex of
        None \<Rightarrow> callMaybe cb s
      | Some b \<Rightarrow>
          if animationActions b = [] then callMaybe cb s
          else
            let b1 = (if isHoverPlaying b
                      then setAllActions (\<lambda>a. a\<lparr>paused := True\<rparr>) (b\<lparr>isHoverPlaying := False\<rparr>)
                      else b);
                tline = (case openTimeline b1 of
                        None \<Rightarrow> buildOpenTimeline bookIndex cb s
                      | Some t \<Rightarrow> t)
            in if \<not> isOpen b1 then
                 let s1 = setBook bookIndex
                            ((setAllActions (\<lambda>a. a\<lparr>paused := False, timeScale := 1\<rparr>)
                                (b1\<lparr>isClickPlaying := True\<rparr>))
                               \<lparr>openTimeline := Some (tline\<lparr>tl_timeScale := 1\<rparr>)\<rparr>) s;
                     s2 = (if 0 < tl_progress tline
                           then openTimeline_onReverseComplete bookIndex
                                  (updTimeline bookIndex (\<lambda>t. t\<lparr>tl_progress := 0\<rparr>) s1)
                           else updTimeline bookIndex (\<lambda>t. t\<lparr>tl_progress := 0\<rparr>) s1)
                 in updTimeline bookIndex (\<lambda>t. t\<lparr>tl_paused := False, tl_reversed := False\<rparr>) s2
               else
                 let s1 = setBook bookIndex
                            ((setAllActions (\<lambda>a. a\<lparr>paused := False, timeScale := - 1\<rparr>)
                                (b1\<lparr>isClickPlaying := True\<rparr>))
                               \<lparr>openTimeline := Some tline\<rparr>)
                            (if length (animationActions b1) > 0
                             then s\<lparr>checker := Patched (checker s) bookIndex cb\<rparr>
                             else s);
                     s2 = updTimeline bookIndex (\<lambda>t. t\<lparr>tl_timeScale := 2\<rparr>) s1;
                     s3 = (if tl_progress tline < 1
                           then openTimeline_onComplete bookIndex
                                  (updTimeline bookIndex (\<lambda>t. t\<lparr>tl_progress := 1\<rparr>) s2)
                           else updTimeline bookIndex (\<lambda>t. t\<lparr>tl_progress := 1\<rparr>) s2)
                 in updTimeline bookIndex (\<lambda>t. t\<lparr>tl_reversed := True, tl_paused := False\<rparr>) s3)"

text \<open>
  Modelled from the GSAP contract (a library that is not part of the sources): between
  its start and its end, the ticker renders a running timeline at the position it has
  reached.
\<close>

definition timeline_tick :: "nat \<Rightarrow> real \<Rightarrow> texture \<Rightarrow> texture" where
  "timeline_tick i p s =
     updTimeline i (\<lambda>t. if \<not> tl_paused t \<and> 0 < p \<and> p < 1 then t\<lparr>tl_progress := p\<rparr> else t) s"

section \<open>Close-all\<close>

definition isAnyBookOpen :: "texture \<Rightarrow> bool" where
  "isAnyBookOpen s = list_ex (\<lambda>b. case b of None \<Rightarrow> False | Some bk \<Rightarrow> isOpen bk) (bookInstances s)"

definition openBookIndices :: "texture \<Rightarrow> nat list" where
  "openBookIndices s =
     map index (List.map_filter (\<lambda>b. case b of None \<Rightarrow> None
                                    | Some bk \<Rightarrow> if isOpen bk then Some bk else None)
                  (bookInstances s))"

text \<open>
  The promise executor runs first (the toggles and any callback they call at once);
  only then is the new promise assigned to \<open>bookClosePromise\<close>.
\<close>

definition closeAllOpenBooksWithPromise :: "texture \<Rightarrow> promise \<times> texture" where
  "closeAllOpenBooksWithPromise s =
     (case bookClosePromise s of
        Some k \<Rightarrow> (Aggregate k, s)
      | None \<Rightarrow>
          if \<not> isAnyBookOpen s then (Resolved, s)
          else
            let k = length (closeOps s);
                idxs = openBookIndices s
            in if length idxs = 0 then
                 (Aggregate k,
                  s\<lparr>closeOps := closeOps s @ [\<lparr>closedCount = 0, openCount = 0, resolveCalls = 1\<rparr>],
                    bookClosePromise := Some k\<rparr>)
               else
                 let s1 = s\<lparr>closeOps := closeOps s @
                             [\<lparr>closedCount = 0, openCount = length idxs, resolveCalls = 0\<rparr>]\<rparr>;
                     s2 = fold (\<lambda>i. toggleBookAnimationWithCallback i (Some (CheckAllClosed k)))
                            idxs s1
                 in (Aggregate k, s2\<lparr>bookClosePromise := Some k\<rparr>))"

definition closeAllOpenBooks :: "texture \<Rightarrow> promise \<times> texture" where
  "closeAllOpenBooks s = closeAllOpenBooksWithPromise s"

section \<open>The scroll handler and the recovery sequence\<close>

text \<open>
  The tweens of the position transition, one pair per loaded book. \<open>targetBookPositions\<close>
  has \<open>this.books.length\<close> entries; a loaded book in a later slot reads \<open>undefined\<close> and
  \<open>targetPos.x\<close> throws (\<open>None\<close>).
\<close>

fun transitionTweens ::
    "real \<Rightarrow> (real \<times> real) list \<Rightarrow> nat \<Rightarrow> book option list \<Rightarrow> tween list option" where
  "transitionTweens targetProgress ps i [] = Some []"
| "transitionTweens targetProgress ps i (None # bs) =
     transitionTweens targetProgress ps (Suc i) bs"
| "transitionTweens targetProgress ps i (Some b # bs) =
     (if i < length ps then
        map_option
          (\<lambda>ts. [PositionTo i (75 / 100)
                    \<lparr>vec_x = fst (ps ! i), vec_y = snd (ps ! i), vec_z = vec_z (scene_position b)\<rparr>,
                  RotationTo i (75 / 100)
                    \<lparr>vec_x = targetProgress * degToRad 90, vec_y = 0,
                     vec_z = targetProgress * degToRad (- 28 - real i * 20)\<rparr>] @ ts)
          (transitionTweens targetProgress ps (Suc i) bs)
      else None)"

text \<open>The \<open>then\<close> handler of the close-all promise.\<close>

definition recoveryThen :: "real \<Rightarrow> texture \<Rightarrow> texture option" where
  "recoveryThen targetProgress s =
     (let s1 = s\<lparr>scrollTrigger_enabled := True\<rparr>;
          (targetBookPositions, s2) = calculateBookPositionsForProgress targetProgress s1
      in map_option
           (\<lambda>ts. s2\<lparr>pendings := pendings s2 @ [PositionTransition ts targetProgress]\<rparr>)
           (transitionTweens targetProgress targetBookPositions 0 (bookInstances s2)))"

text \<open>\<open>onComplete\<close> of the position transition: set up the scroll tween.\<close>

definition positionTransition_onComplete :: "real \<Rightarrow> texture \<Rightarrow> texture" where
  "positionTransition_onComplete targetProgress s =
     (let startScrollY = scrollY s;
          totalScrollDistance = scroll_end s - scroll_start s;
          endScrollY = scroll_start s + totalScrollDistance * targetProgress
      in s\<lparr>pendings := pendings s @ [ScrollTween startScrollY endScrollY]\<rparr>)"

text \<open>
  \<open>onUpdate\<close> of the scroll tween. It is a \<open>function () {...}\<close>, so \<open>this\<close> is the tween and
  \<open>this.progress\<close> is a method: \<open>startScrollY + scrollDistance * this.progress\<close> is NaN at
  every update, and the handler calls \<open>window.scrollTo(0, NaN)\<close>. Where the browser then
  puts the offset is not in the sources: it is the parameter \<open>nanOffset\<close>.
\<close>

definition scrollTween_onUpdate :: "real \<Rightarrow> texture \<Rightarrow> texture" where
  "scrollTween_onUpdate nanOffset s = s\<lparr>scrollY := nanOffset\<rparr>"

text \<open>\<open>onComplete\<close> of the scroll tween: \<open>window.scrollTo(0, endScrollY)\<close>, then the flag.\<close>

definition scrollTween_onComplete :: "real \<Rightarrow> texture \<Rightarrow> texture" where
  "scrollTween_onComplete endScrollY s =
     s\<lparr>scrollY := endScrollY, isClosingFromScroll := False\<rparr>"

text \<open>The condition under which \<open>onUpdate\<close> enters the recovery sequence.\<close>

definition reversalDetected :: "real \<Rightarrow> texture \<Rightarrow> bool" where
  "reversalDetected progress s \<longleftrightarrow>
     progress < lastProgress s \<and> isAnyBookOpen s \<and> \<not> isClosingFromScroll s"

text \<open>
  The recovery entry: capture the progress, disable the scroll trigger, set the flag,
  issue the close-all and register the \<open>then\<close> handler on the promise it returns.
\<close>

definition enterRecovery :: "real \<Rightarrow> texture \<Rightarrow> texture" where
  "enterRecovery progress s =
     (let targetProgress = progress;
          s1 = s\<lparr>scrollTrigger_enabled := False\<rparr>;
          s2 = s1\<lparr>isClosingFromScroll := True\<rparr>;
          (p, s3) = closeAllOpenBooksWithPromise s2
      in s3\<lparr>pendings := pendings s3 @ [ThenRecovery p targetProgress]\<rparr>)"

definition onUpdate :: "real \<Rightarrow> texture \<Rightarrow> texture option" where
  "onUpdate progress s =
     (let s1 = (if reversalDetected progress s then enterRecovery progress s else s)
      in map_option (\<lambda>s2. s2\<lparr>lastProgress := progress\<rparr>)
           (if \<not> isClosingFromScroll s1 then
              map_option (\<lambda>s2. s2\<lparr>canInteract := (progress = 1)\<rparr>)
                (updateBookPositions progress s1)
            else Some s1))"

definition onLeaveBack :: "texture \<Rightarrow> texture" where
  "onLeaveBack s = snd (closeAllOpenBooks s)"

section \<open>Pointer routing\<close>

text \<open>
  The ray cast is outside the model: \<open>hit\<close> is the \<open>bookIndex\<close> of the nearest intersected
  clickable mesh, \<open>None\<close> when the ray hits nothing.
\<close>

definition closeOthers :: "nat \<Rightarrow> nat \<Rightarrow> texture \<Rightarrow> texture" where
  "closeOthers bookIndex i s =
     (case bookAt s i of
        None \<Rightarrow> s
      | Some otherBook \<Rightarrow>
          if i \<noteq> bookIndex \<and> isOpen otherBook
          then toggleBookAnimationWithCallback i None s
          else s)"

definition onCanvasClick :: "nat option \<Rightarrow> texture \<Rightarrow> texture" where
  "onCanvasClick hit s =
     (if \<not> canInteract s \<or> isClosingFromScroll s then s
      else case hit of
        None \<Rightarrow> s
      | Some bookIndex \<Rightarrow>
          (let s1 = toggleBookAnimationWithCallback bookIndex None s
           in (case bookAt s1 bookIndex of
                 None \<Rightarrow> s1
               | Some b \<Rightarrow>
                   if \<not> isOpen b
                   then fold (closeOthers bookIndex) [0..<length (bookInstances s1)] s1
                   else s1)))"

definition animateToFraction :: "book \<Rightarrow> real \<Rightarrow> book" where
  "animateToFraction b fraction =
     (if animationActions b = [] then b
      else (b\<lparr>isHoverPlaying := True\<rparr>)
        \<lparr>animationActions :=
           map (\<lambda>animO.
                  let currentTime = time (action animO);
                      targetTime = fraction * originalDuration animO;
                      direction = (if currentTime < targetTime then 1 else - 1)
                  in animO\<lparr>action := (action animO)\<lparr>timeScale := direction, paused := False\<rparr>\<rparr>)
             (animationActions b)\<rparr>)"

definition setHoveredBook :: "nat \<Rightarrow> texture \<Rightarrow> texture" where
  "setHoveredBook bookIndex s =
     (let s1 = s\<lparr>currentHoveredIndex := int bookIndex\<rparr>
      in case bookAt s1 bookIndex of
           None \<Rightarrow> s1
         | Some b \<Rightarrow>
             if isOpen b \<or> isClickPlaying b then s1
             else setBook bookIndex (animateToFraction b hoverPlayPercentage) s1)"

definition clearHoveredBook :: "texture \<Rightarrow> texture" where
  "clearHoveredBook s =
     (if currentHoveredIndex s = - 1 then s
      else
        let old = currentHoveredIndex s;
            oldBook = (if 0 \<le> old then bookAt s (nat old) else None);
            s1 = s\<lparr>currentHoveredIndex := - 1\<rparr>
        in case oldBook of
             None \<Rightarrow> s1
           | Some b \<Rightarrow>
               if isOpen b \<or> isClickPlaying b then s1
               else setBook (nat old) (animateToFraction b 0) s1)"

definition onCanvasMouseMove :: "nat option \<Rightarrow> texture \<Rightarrow> texture" where
  "onCanvasMouseMove hit s =
     (if \<not> canInteract s then s
      else case hit of
        Some bookIndex \<Rightarrow>
          if int bookIndex = currentHoveredIndex s then s
          else setHoveredBook bookIndex (clearHoveredBook s)
      | None \<Rightarrow> clearHoveredBook s)"

section \<open>The scene as a state machine\<close>

text \<open>
  Everything that can call into the class after the books are loaded: the scroll
  trigger, the pointer listeners, the animation frame, the completion callbacks of a
  book's timeline, and the continuations registered by the recovery sequence; and the
  GSAP ticker moving a running timeline. An update of the scroll tween carries the
  offset the browser takes for the NaN it is given.
\<close>

datatype event =
    ScrollUpdate real
  | LeaveBack
  | Click "nat option"
  | MouseMove "nat option"
  | MouseLeave
  | Frame real
  | TimelineComplete nat
  | TimelineTick nat real
  | TimelineReverseComplete nat
  | Run pending
  | ScrollTweenUpdate real real real

text \<open>
  A registered continuation runs once and only if it is registered; a \<open>then\<close> handler
  only once its promise is resolved. An event that cannot happen leaves the state as it
  is. \<open>None\<close> is an uncaught TypeError in the handler.
\<close>

definition runPending :: "pending \<Rightarrow> texture \<Rightarrow> texture option" where
  "runPending p s =
     (if p \<in> set (pendings s) then
        (case p of
           ThenRecovery pr targetProgress \<Rightarrow>
             if promiseResolved pr s
             then recoveryThen targetProgress (s\<lparr>pendings := remove1 p (pendings s)\<rparr>)
             else Some s
         | PositionTransition ts targetProgress \<Rightarrow>
             Some (positionTransition_onComplete targetProgress
                     (s\<lparr>pendings := remove1 p (pendings s)\<rparr>))
         | ScrollTween startScrollY endScrollY \<Rightarrow>
             Some (scrollTween_onComplete endScrollY (s\<lparr>pendings := remove1 p (pendings s)\<rparr>)))
      else Some s)"

fun step :: "event \<Rightarrow> texture \<Rightarrow> texture option" where
  "step (ScrollUpdate progress) s = onUpdate progress s"
| "step LeaveBack s = Some (onLeaveBack s)"
| "step (Click hit) s = Some (onCanvasClick hit s)"
| "step (MouseMove hit) s = Some (onCanvasMouseMove hit s)"
| "step MouseLeave s = Some (clearHoveredBook s)"
| "step (Frame deltaTime) s = Some (animate deltaTime s)"
| "step (TimelineComplete i) s = Some (openTimeline_onComplete i s)"
| "step (TimelineReverseComplete i) s = Some (openTimeline_onReverseComplete i s)"
| "step (Run p) s = runPending p s"
| "step (TimelineTick i p) s = Some (timeline_tick i p s)"
| "step (ScrollTweenUpdate startScrollY endScrollY nanOffset) s =
     Some (if ScrollTween startScrollY endScrollY \<in> set (pendings s)
           then scrollTween_onUpdate nanOffset s
           else s)"

fun run :: "event list \<Rightarrow> texture \<Rightarrow> texture option" where
  "run [] s = Some s"
| "run (e # es) s = (case step e s of None \<Rightarrow> None | Some s1 \<Rightarrow> run es s1)"

section \<open>The scene once the books are loaded\<close>

definition finalPositions :: "vec3 list" where
  "finalPositions =
    [\<lparr>vec_x = - 15 / 10, vec_y = - 2 / 10, vec_z = 25 / 100\<rparr>,
     \<lparr>vec_x = - 5 / 10, vec_y = - 2 / 10, vec_z = 25 / 100\<rparr>,
     \<lparr>vec_x = 5 / 10, vec_y = - 2 / 10, vec_z = 25 / 100\<rparr>,
     \<lparr>vec_x = 15 / 10, vec_y = - 2 / 10, vec_z = 25 / 100\<rparr>]"

text \<open>
  The book instance that the load callback creates in slot \<open>i\<close> from a model whose
  clips have the given durations.
\<close>

definition newBookInstance :: "nat \<Rightarrow> real list \<Rightarrow> book" where
  "newBookInstance i durations =
     \<lparr>scene_position = finalPositions ! i,
      scene_rotation = \<lparr>vec_x = 0, vec_y = 0, vec_z = 0\<rparr>,
      index = i,
      animationActions =
        map (\<lambda>d. \<lparr>action = \<lparr>time = 0, timeScale = 1, paused = False\<rparr>, originalDuration = d\<rparr>)
          durations,
      isOpen = False, isClickPlaying = False, isHoverPlaying = False,
      openTimeline = None\<rparr>"

text \<open>
  The state when \<open>onAllBooksLoaded\<close> has run. \<open>loads\<close> gives, per book, \<open>None\<close> when its
  load failed and otherwise the durations of the clips of its model; \<open>bookInstances\<close> has
  \<open>this.books.length\<close> slots.
\<close>

definition loadedTexture :: "real list option list \<Rightarrow> real \<Rightarrow> real \<Rightarrow> texture" where
  "loadedTexture loads sStart sEnd =
     \<lparr>bookInstances =
        map (\<lambda>i. if i < length loads then map_option (newBookInstance i) (loads ! i) else None)
          [0..<books_length],
      isClosingFromScroll = False,
      bookClosePromise = None,
      lastCalculatedPositions = [],
      currentHoveredIndex = - 1,
      canInteract = False,
      camera_x = 1,
      checker = Original,
      lastProgress = 0,
      scrollTrigger_enabled = True,
      scroll_start = sStart,
      scroll_end = sEnd,
      scrollY = 0,
      closeOps = [],
      callLog = [],
      pendings = []\<rparr>"

text \<open>Four books, each with one clip of duration 1, pinned between offsets 0 and 3000.\<close>

definition demoScene :: texture where
  "demoScene = loadedTexture [Some [1], Some [1], Some [1], Some [1]] 0 3000"

section \<open>Derived notions used in the statements\<close>

text \<open>
  The per-book states of the specification are not stored; they are read off the two
  flags.
\<close>

datatype bookPhase = Closed | Opening | Open | Closing

definition bookState :: "book \<Rightarrow> bookPhase" where
  "bookState b =
     (if isClickPlaying b then (if isOpen b then Closing else Opening)
      else (if isOpen b then Open else Closed))"

text \<open>A clip that satisfies one of the two click-mode conditions of the clamp check.\<close>

definition crossesClickLimit :: "animObj \<Rightarrow> bool" where
  "crossesClickLimit animO \<longleftrightarrow>
     (timeScale (action animO) > 0 \<and>
        time (action animO) \<ge> originalDuration animO * clickPlayPercentage) \<or>
     (timeScale (action animO) < 0 \<and> time (action animO) \<le> 0)"

text \<open>What one animation frame does to a loaded book: advance its clips and check them.\<close>

definition frameBook :: "real \<Rightarrow> book \<Rightarrow> book" where
  "frameBook deltaTime b =
     (if isClickPlaying b \<or> isHoverPlaying b
      then checkAnimationProgress (mixer_update deltaTime b)
      else b)"

definition openFlags :: "texture \<Rightarrow> bool option list" where
  "openFlags s = map (map_option isOpen) (bookInstances s)"

definition clickFlags :: "texture \<Rightarrow> bool option list" where
  "clickFlags s = map (map_option isClickPlaying) (bookInstances s)"

text \<open>
  A recovery that waits for a close-all promise which nothing is left to resolve: the
  flag is set, a close-all is pending, the method slot holds the class method, no
  timeline carries a callback, and every registered continuation waits for an
  unresolved aggregate promise.
\<close>

definition timelineSilent :: "book option \<Rightarrow> bool" where
  "timelineSilent b =
     (case b of
        None \<Rightarrow> True
      | Some bk \<Rightarrow> (case openTimeline bk of None \<Rightarrow> True | Some t \<Rightarrow> tl_callback t = None))"

definition waitsUnresolved :: "texture \<Rightarrow> pending \<Rightarrow> bool" where
  "waitsUnresolved s p =
     (case p of
        ThenRecovery pr targetProgress \<Rightarrow> pr \<noteq> Resolved \<and> \<not> promiseResolved pr s
      | PositionTransition ts targetProgress \<Rightarrow> False
      | ScrollTween startScrollY endScrollY \<Rightarrow> False)"

definition stalled :: "texture \<Rightarrow> bool" where
  "stalled s \<longleftrightarrow>
     isClosingFromScroll s \<and> bookClosePromise s \<noteq> None \<and> checker s = Original \<and>
     list_all timelineSilent (bookInstances s) \<and>
     list_all (waitsUnresolved s) (pendings s)"

section \<open>Auxiliary facts\<close>

subsection \<open>Callbacks touch only the close-all bookkeeping\<close>

lemma callMaybe_fields [simp]:
  "bookInstances (callMaybe cb s) = bookInstances s"
  "isClosingFromScroll (callMaybe cb s) = isClosingFromScroll s"
  "checker (callMaybe cb s) = checker s"
  "pendings (callMaybe cb s) = pendings s"
  "canInteract (callMaybe cb s) = canInteract s"
  "scrollTrigger_enabled (callMaybe cb s) = scrollTrigger_enabled s"
  "currentHoveredIndex (callMaybe cb s) = currentHoveredIndex s"
  "lastProgress (callMaybe cb s) = lastProgress s"
  by (simp_all add: callMaybe_def invokeCallback_def checkAllClosed_def Let_def
        split: option.splits callback.splits)

lemma bookAt_callMaybe [simp]: "bookAt (callMaybe cb s) i = bookAt s i"
  by (simp add: bookAt_def)

lemma fold_field:
  "(\<And>x s. g (f x s) = g s) \<Longrightarrow> g (fold f xs s) = g s"
  by (induction xs arbitrary: s) simp_all

subsection \<open>Timeline setters and callbacks\<close>

lemma setBook_fields [simp]:
  "isClosingFromScroll (setBook i b s) = isClosingFromScroll s"
  "pendings (setBook i b s) = pendings s"
  "canInteract (setBook i b s) = canInteract s"
  "scrollTrigger_enabled (setBook i b s) = scrollTrigger_enabled s"
  "currentHoveredIndex (setBook i b s) = currentHoveredIndex s"
  "lastProgress (setBook i b s) = lastProgress s"
  "checker (setBook i b s) = checker s"
  "closeOps (setBook i b s) = closeOps s"
  "bookClosePromise (setBook i b s) = bookClosePromise s"
  "callLog (setBook i b s) = callLog s"
  "length (bookInstances (setBook i b s)) = length (bookInstances s)"
  by (simp_all add: setBook_def)

lemma bookAt_setBook:
  "bookAt (setBook i b s) j =
     (if j = i \<and> i < length (bookInstances s) then Some b else bookAt s j)"
  by (simp add: bookAt_def setBook_def)

lemma updTimeline_fields [simp]:
  "isClosingFromScroll (updTimeline i f s) = isClosingFromScroll s"
  "pendings (updTimeline i f s) = pendings s"
  "canInteract (updTimeline i f s) = canInteract s"
  "scrollTrigger_enabled (updTimeline i f s) = scrollTrigger_enabled s"
  "currentHoveredIndex (updTimeline i f s) = currentHoveredIndex s"
  "lastProgress (updTimeline i f s) = lastProgress s"
  "checker (updTimeline i f s) = checker s"
  "closeOps (updTimeline i f s) = closeOps s"
  "bookClosePromise (updTimeline i f s) = bookClosePromise s"
  "callLog (updTimeline i f s) = callLog s"
  "length (bookInstances (updTimeline i f s)) = length (bookInstances s)"
  by (simp_all add: updTimeline_def split: option.splits)

lemma bookAt_updTimeline_other:
  "j \<noteq> i \<Longrightarrow> bookAt (updTimeline i f s) j = bookAt s j"
  by (simp add: updTimeline_def bookAt_setBook split: option.splits)

lemma bookAt_updTimeline_same:
  "bookAt (updTimeline i f s) i =
     map_option (\<lambda>b. b\<lparr>openTimeline := map_option f (openTimeline b)\<rparr>) (bookAt s i)"
proof (cases "bookAt s i")
  case None
  then show ?thesis by (simp add: updTimeline_def)
next
  case (Some b)
  then have "i < length (bookInstances s)" by (simp add: bookAt_def split: if_splits)
  with Some show ?thesis
    by (cases "openTimeline b") (simp_all add: updTimeline_def bookAt_setBook)
qed

lemma bookFlags_updTimeline [simp]:
  "map_option isOpen (bookAt (updTimeline i f s) j) = map_option isOpen (bookAt s j)"
  "map_option isClickPlaying (bookAt (updTimeline i f s) j) = map_option isClickPlaying (bookAt s j)"
  "map_option (\<lambda>b. (isClickPlaying b, isOpen b)) (bookAt (updTimeline i f s) j) =
     map_option (\<lambda>b. (isClickPlaying b, isOpen b)) (bookAt s j)"
  by (cases "j = i";
      simp add: bookAt_updTimeline_same bookAt_updTimeline_other option.map_comp comp_def)+

lemma timeline_callbacks_fields [simp]:
  "isClosingFromScroll (openTimeline_onComplete i s) = isClosingFromScroll s"
  "pendings (openTimeline_onComplete i s) = pendings s"
  "canInteract (openTimeline_onComplete i s) = canInteract s"
  "scrollTrigger_enabled (openTimeline_onComplete i s) = scrollTrigger_enabled s"
  "currentHoveredIndex (openTimeline_onComplete i s) = currentHoveredIndex s"
  "lastProgress (openTimeline_onComplete i s) = lastProgress s"
  "checker (openTimeline_onComplete i s) = checker s"
  "length (bookInstances (openTimeline_onComplete i s)) = length (bookInstances s)"
  "isClosingFromScroll (openTimeline_onReverseComplete i s) = isClosingFromScroll s"
  "pendings (openTimeline_onReverseComplete i s) = pendings s"
  "canInteract (openTimeline_onReverseComplete i s) = canInteract s"
  "scrollTrigger_enabled (openTimeline_onReverseComplete i s) = scrollTrigger_enabled s"
  "currentHoveredIndex (openTimeline_onReverseComplete i s) = currentHoveredIndex s"
  "lastProgress (openTimeline_onReverseComplete i s) = lastProgress s"
  "checker (openTimeline_onReverseComplete i s) = checker s"
  "length (bookInstances (openTimeline_onReverseComplete i s)) = length (bookInstances s)"
  by (simp_all add: openTimeline_onComplete_def openTimeline_onReverseComplete_def
        split: option.splits)

lemma onComplete_as_setter:
  "openTimeline_onComplete i s = updTimeline i (\<lambda>t. t\<lparr>tl_paused := True, tl_progress := 1\<rparr>) s"
  by (simp add: openTimeline_onComplete_def updTimeline_def)

lemma bookAt_onReverseComplete [simp]:
  "bookAt (openTimeline_onReverseComplete i s) j =
     bookAt (updTimeline i (\<lambda>t. t\<lparr>tl_paused := True, tl_progress := 0\<rparr>) s) j"
  by (simp add: openTimeline_onReverseComplete_def updTimeline_def split: option.splits)

lemma onReverseComplete_books [simp]:
  "bookInstances (openTimeline_onReverseComplete i s) =
     bookInstances (updTimeline i (\<lambda>t. t\<lparr>tl_paused := True, tl_progress := 0\<rparr>) s)"
  by (simp add: openTimeline_onReverseComplete_def updTimeline_def split: option.splits)

lemma flags_eqI:
  assumes "length (bookInstances s') = length (bookInstances s)"
    and "\<And>j. map_option g (bookAt s' j) = map_option g (bookAt s j)"
  shows "map (map_option g) (bookInstances s') = map (map_option g) (bookInstances s)"
proof (rule nth_equalityI)
  show "length (map (map_option g) (bookInstances s')) = length (map (map_option g) (bookInstances s))"
    using assms(1) by simp
next
  fix j assume "j < length (map (map_option g) (bookInstances s'))"
  then have j: "j < length (bookInstances s')" "j < length (bookInstances s)"
    using assms(1) by simp_all
  with assms(2) [of j] show "map (map_option g) (bookInstances s') ! j =
      map (map_option g) (bookInstances s) ! j"
    by (simp add: bookAt_def)
qed

lemma bookFlags_onReverseComplete [simp]:
  "map_option isOpen (bookAt (openTimeline_onReverseComplete i s) j) = map_option isOpen (bookAt s j)"
  "map_option isClickPlaying (bookAt (openTimeline_onReverseComplete i s) j) =
     map_option isClickPlaying (bookAt s j)"
  "map_option (\<lambda>b. (isClickPlaying b, isOpen b)) (bookAt (openTimeline_onReverseComplete i s) j) =
     map_option (\<lambda>b. (isClickPlaying b, isOpen b)) (bookAt s j)"
  by simp_all

lemma updTimeline_openFlags [simp]: "openFlags (updTimeline i f s) = openFlags s"
  unfolding openFlags_def by (rule flags_eqI) simp_all

lemma openFlags_callMaybe [simp]: "openFlags (callMaybe cb s) = openFlags s"
  by (simp add: openFlags_def)

lemma onReverseComplete_openFlags [simp]:
  "openFlags (openTimeline_onReverseComplete i s) = openFlags s"
  using updTimeline_openFlags [of i _ s] by (simp add: openFlags_def)

lemma onComplete_openFlags [simp]:
  "openFlags (openTimeline_onComplete i s) = openFlags s"
  by (simp add: onComplete_as_setter)

subsection \<open>The toggle\<close>

lemma toggle_fields [simp]:
  "isClosingFromScroll (toggleBookAnimationWithCallback i cb s) = isClosingFromScroll s"
  "pendings (toggleBookAnimationWithCallback i cb s) = pendings s"
  "canInteract (toggleBookAnimationWithCallback i cb s) = canInteract s"
  "scrollTrigger_enabled (toggleBookAnimationWithCallback i cb s) = scrollTrigger_enabled s"
  "currentHoveredIndex (toggleBookAnimationWithCallback i cb s) = currentHoveredIndex s"
  "lastProgress (toggleBookAnimationWithCallback i cb s) = lastProgress s"
  "length (bookInstances (toggleBookAnimationWithCallback i cb s)) = length (bookInstances s)"
  by (simp_all add: toggleBookAnimationWithCallback_def Let_def split: option.splits)

lemma map_update_same:
  "i < length xs \<Longrightarrow> f y = f (xs ! i) \<Longrightarrow> map f (xs[i := y]) = map f xs"
  by (simp add: map_update list_update_same_conv)

lemma openFlags_setBook:
  "bookAt s i = Some b \<Longrightarrow> isOpen b' = isOpen b \<Longrightarrow> openFlags (setBook i b' s) = openFlags s"
  by (auto simp: openFlags_def setBook_def bookAt_def map_update_same split: if_splits)

lemma openFlags_checker [simp]: "openFlags (s\<lparr>checker := k\<rparr>) = openFlags s"
  by (simp add: openFlags_def)

lemma bookAt_checker [simp]: "bookAt (s\<lparr>checker := k\<rparr>) i = bookAt s i"
  by (simp add: bookAt_def)

lemma toggle_openFlags [simp]:
  "openFlags (toggleBookAnimationWithCallback i cb s) = openFlags s"
  by (simp add: toggleBookAnimationWithCallback_def Let_def openFlags_setBook setAllActions_def
        split: option.splits)

lemma toggle_starts_click:
  assumes "bookAt s i = Some b" and "animationActions b \<noteq> []"
  shows "\<exists>b'. bookAt (toggleBookAnimationWithCallback i cb s) i = Some b' \<and>
        isClickPlaying b' \<and> isOpen b' = isOpen b"
proof -
  from assms(1) have i: "i < length (bookInstances s)" by (simp add: bookAt_def split: if_splits)
  have "map_option (\<lambda>b. (isClickPlaying b, isOpen b)) (bookAt (toggleBookAnimationWithCallback i cb s) i)
          = Some (True, isOpen b)"
    using assms i
    by (simp add: toggleBookAnimationWithCallback_def Let_def bookAt_setBook setAllActions_def
          onComplete_as_setter del: map_option_eq_Some)
  then show ?thesis by auto
qed

subsection \<open>The clamp check\<close>

lemma checkAction_step:
  assumes "k < length (animationActions b)"
  shows "length (animationActions (checkAction k b)) = length (animationActions b)"
    and "\<forall>j. j \<noteq> k \<longrightarrow> animationActions (checkAction k b) ! j = animationActions b ! j"
    and "isClickPlaying (checkAction k b) \<longrightarrow> isClickPlaying b \<and> isOpen (checkAction k b) = isOpen b"
    and "isOpen (checkAction k b) \<noteq> isOpen b \<longrightarrow>
           isClickPlaying b \<and> \<not> isClickPlaying (checkAction k b) \<and>
           crossesClickLimit (animationActions b ! k)"
    and "openTimeline (checkAction k b) = openTimeline b"
  using assms
  by (auto simp: checkAction_def setAction_def crossesClickLimit_def Let_def)

lemma checkAnimationProgress_upto:
  "n \<le> length (animationActions b) \<Longrightarrow>
   length (animationActions (fold checkAction [0..<n] b)) = length (animationActions b) \<and>
   (\<forall>j. n \<le> j \<longrightarrow> animationActions (fold checkAction [0..<n] b) ! j = animationActions b ! j) \<and>
   (isClickPlaying (fold checkAction [0..<n] b) \<longrightarrow>
      isClickPlaying b \<and> isOpen (fold checkAction [0..<n] b) = isOpen b) \<and>
   (isOpen (fold checkAction [0..<n] b) \<noteq> isOpen b \<longrightarrow>
      isClickPlaying b \<and> \<not> isClickPlaying (fold checkAction [0..<n] b) \<and>
      (\<exists>j<n. crossesClickLimit (animationActions b ! j))) \<and>
   openTimeline (fold checkAction [0..<n] b) = openTimeline b"
proof (induction n)
  case 0
  then show ?case by simp
next
  case (Suc n)
  define c where "c = fold checkAction [0..<n] b"
  from Suc have IH:
    "length (animationActions c) = length (animationActions b)"
    "\<forall>j. n \<le> j \<longrightarrow> animationActions c ! j = animationActions b ! j"
    "isClickPlaying c \<longrightarrow> isClickPlaying b \<and> isOpen c = isOpen b"
    "isOpen c \<noteq> isOpen b \<longrightarrow>
       isClickPlaying b \<and> \<not> isClickPlaying c \<and> (\<exists>j<n. crossesClickLimit (animationActions b ! j))"
    "openTimeline c = openTimeline b"
    by (simp_all add: c_def)
  from Suc.prems IH(1) have k: "n < length (animationActions c)" by simp
  have f: "fold checkAction [0..<Suc n] b = checkAction n c"
    by (simp add: c_def)
  note st = checkAction_step [OF k]
  have same: "animationActions c ! n = animationActions b ! n"
    using IH(2) by simp
  show ?case
    unfolding f
  proof (intro conjI)
    show "length (animationActions (checkAction n c)) = length (animationActions b)"
      using st(1) IH(1) by simp
    show "\<forall>j. Suc n \<le> j \<longrightarrow> animationActions (checkAction n c) ! j = animationActions b ! j"
      using st(2) IH(2) by auto
    show "isClickPlaying (checkAction n c) \<longrightarrow> isClickPlaying b \<and> isOpen (checkAction n c) = isOpen b"
      using st(3) IH(3) by auto
    show "isOpen (checkAction n c) \<noteq> isOpen b \<longrightarrow>
      isClickPlaying b \<and> \<not> isClickPlaying (checkAction n c) \<and>
      (\<exists>j<Suc n. crossesClickLimit (animationActions b ! j))"
    proof
      assume d: "isOpen (checkAction n c) \<noteq> isOpen b"
      show "isClickPlaying b \<and> \<not> isClickPlaying (checkAction n c) \<and>
        (\<exists>j<Suc n. crossesClickLimit (animationActions b ! j))"
      proof (cases "isOpen (checkAction n c) = isOpen c")
        case True
        with d have "isOpen c \<noteq> isOpen b" by simp
        with IH(4) have "isClickPlaying b" "\<not> isClickPlaying c"
          "\<exists>j<n. crossesClickLimit (animationActions b ! j)" by simp_all
        moreover from st(3) \<open>\<not> isClickPlaying c\<close> have "\<not> isClickPlaying (checkAction n c)" by blast
        ultimately show ?thesis using less_Suc_eq by auto
      next
        case False
        with st(4) have "isClickPlaying c" "\<not> isClickPlaying (checkAction n c)"
          "crossesClickLimit (animationActions c ! n)" by simp_all
        with IH(3) same show ?thesis by auto
      qed
    qed
    show "openTimeline (checkAction n c) = openTimeline b"
      using st(5) IH(5) by simp
  qed
qed

lemma checkAnimationProgress_flags:
  "(isOpen (checkAnimationProgress b) \<noteq> isOpen b \<longrightarrow>
      isClickPlaying b \<and> \<not> isClickPlaying (checkAnimationProgress b) \<and>
      (\<exists>a \<in> set (animationActions b). crossesClickLimit a)) \<and>
   (isClickPlaying (checkAnimationProgress b) \<longrightarrow> isClickPlaying b) \<and>
   openTimeline (checkAnimationProgress b) = openTimeline b"
proof -
  have "(\<exists>j<length (animationActions b). crossesClickLimit (animationActions b ! j)) \<Longrightarrow>
        (\<exists>a \<in> set (animationActions b). crossesClickLimit a)"
    using nth_mem by blast
  with checkAnimationProgress_upto [of "length (animationActions b)" b]
  show ?thesis unfolding checkAnimationProgress_def by blast
qed

lemma mixer_update_flags [simp]:
  "isOpen (mixer_update dt b) = isOpen b"
  "isClickPlaying (mixer_update dt b) = isClickPlaying b"
  "isHoverPlaying (mixer_update dt b) = isHoverPlaying b"
  "openTimeline (mixer_update dt b) = openTimeline b"
  by (simp_all add: mixer_update_def)

lemma frameBook_flags:
  "(isOpen (frameBook dt b) \<noteq> isOpen b \<longrightarrow>
      isClickPlaying b \<and> \<not> isClickPlaying (frameBook dt b) \<and>
      (\<exists>a \<in> set (animationActions (mixer_update dt b)). crossesClickLimit a)) \<and>
   (isClickPlaying (frameBook dt b) \<longrightarrow> isClickPlaying b) \<and>
   openTimeline (frameBook dt b) = openTimeline b"
  using checkAnimationProgress_flags [of "mixer_update dt b"]
  by (auto simp: frameBook_def)

subsection \<open>The method slot and the frame\<close>

lemma runChecker_books:
  "bookInstances (runChecker c j s) =
     (case bookAt s j of
        None \<Rightarrow> bookInstances s
      | Some b \<Rightarrow> (bookInstances s)[j := Some (checkAnimationProgress b)])"
  by (induction c arbitrary: s) (auto simp: setBook_def Let_def split: option.splits)

lemma runChecker_flag [simp]:
  "isClosingFromScroll (runChecker c j s) = isClosingFromScroll s"
  by (induction c arbitrary: s) (auto simp: setBook_def Let_def split: option.splits)

lemma runChecker_pendings [simp]:
  "pendings (runChecker c j s) = pendings s"
  by (induction c arbitrary: s) (auto simp: setBook_def Let_def split: option.splits)

lemma runChecker_canInteract [simp]:
  "canInteract (runChecker c j s) = canInteract s"
  by (induction c arbitrary: s) (auto simp: setBook_def Let_def split: option.splits)

lemma runChecker_enabled [simp]:
  "scrollTrigger_enabled (runChecker c j s) = scrollTrigger_enabled s"
  by (induction c arbitrary: s) (auto simp: setBook_def Let_def split: option.splits)

lemma runChecker_hovered [simp]:
  "currentHoveredIndex (runChecker c j s) = currentHoveredIndex s"
  by (induction c arbitrary: s) (auto simp: setBook_def Let_def split: option.splits)

lemma runChecker_lastProgress [simp]:
  "lastProgress (runChecker c j s) = lastProgress s"
  by (induction c arbitrary: s) (auto simp: setBook_def Let_def split: option.splits)

lemma list_update_known: "xs ! i = v \<Longrightarrow> xs[i := v] = xs"
  by auto

lemma animateBook_books:
  "bookInstances (animateBook dt i s) =
     (if i < length (bookInstances s)
      then (bookInstances s)[i := map_option (frameBook dt) (bookInstances s ! i)]
      else bookInstances s)"
  by (auto simp: animateBook_def runChecker_books bookAt_def setBook_def frameBook_def Let_def
        list_update_known split: option.splits)

lemma animateBook_fields [simp]:
  "isClosingFromScroll (animateBook dt i s) = isClosingFromScroll s"
  "pendings (animateBook dt i s) = pendings s"
  "canInteract (animateBook dt i s) = canInteract s"
  "scrollTrigger_enabled (animateBook dt i s) = scrollTrigger_enabled s"
  "currentHoveredIndex (animateBook dt i s) = currentHoveredIndex s"
  "lastProgress (animateBook dt i s) = lastProgress s"
  by (simp_all add: animateBook_def setBook_def Let_def split: option.splits)

lemma animate_upto:
  "n \<le> length (bookInstances s) \<Longrightarrow>
   bookInstances (fold (animateBook dt) [0..<n] s) =
     map (map_option (frameBook dt)) (take n (bookInstances s)) @ drop n (bookInstances s)"
proof (induction n)
  case 0
  then show ?case by simp
next
  case (Suc n)
  then have IH: "bookInstances (fold (animateBook dt) [0..<n] s) =
     map (map_option (frameBook dt)) (take n (bookInstances s)) @ drop n (bookInstances s)"
    and n: "n < length (bookInstances s)" by simp_all
  show ?case
    using n
    by (simp add: animateBook_books IH nth_append list_update_append
          take_Suc_conv_app_nth flip: Cons_nth_drop_Suc)
qed

lemma animate_books:
  "bookInstances (animate dt s) = map (map_option (frameBook dt)) (bookInstances s)"
  by (simp add: animate_def animate_upto)

lemma animate_fields [simp]:
  "isClosingFromScroll (animate dt s) = isClosingFromScroll s"
  "pendings (animate dt s) = pendings s"
  "canInteract (animate dt s) = canInteract s"
  "scrollTrigger_enabled (animate dt s) = scrollTrigger_enabled s"
  "currentHoveredIndex (animate dt s) = currentHoveredIndex s"
  "lastProgress (animate dt s) = lastProgress s"
  by (simp_all add: animate_def fold_field)

subsection \<open>Close-all, pointer routing, timeline callbacks\<close>

lemma fold_toggle_openFlags [simp]:
  "openFlags (fold (\<lambda>i. toggleBookAnimationWithCallback i cb) is s) = openFlags s"
  by (induction "is" arbitrary: s) simp_all

lemma fold_toggle_fields [simp]:
  "isClosingFromScroll (fold (\<lambda>i. toggleBookAnimationWithCallback i cb) is s) = isClosingFromScroll s"
  "pendings (fold (\<lambda>i. toggleBookAnimationWithCallback i cb) is s) = pendings s"
  "canInteract (fold (\<lambda>i. toggleBookAnimationWithCallback i cb) is s) = canInteract s"
  "scrollTrigger_enabled (fold (\<lambda>i. toggleBookAnimationWithCallback i cb) is s) = scrollTrigger_enabled s"
  "lastProgress (fold (\<lambda>i. toggleBookAnimationWithCallback i cb) is s) = lastProgress s"
  by (induction "is" arbitrary: s) simp_all

lemma openFlags_updates [simp]:
  "openFlags (s\<lparr>closeOps := a\<rparr>) = openFlags s"
  "openFlags (s\<lparr>bookClosePromise := b\<rparr>) = openFlags s"
  "openFlags (s\<lparr>pendings := c\<rparr>) = openFlags s"
  "openFlags (s\<lparr>scrollTrigger_enabled := d\<rparr>) = openFlags s"
  "openFlags (s\<lparr>isClosingFromScroll := e\<rparr>) = openFlags s"
  "openFlags (s\<lparr>lastProgress := f\<rparr>) = openFlags s"
  "openFlags (s\<lparr>canInteract := g\<rparr>) = openFlags s"
  "openFlags (s\<lparr>currentHoveredIndex := h\<rparr>) = openFlags s"
  "openFlags (s\<lparr>scrollY := y\<rparr>) = openFlags s"
  "openFlags (s\<lparr>lastCalculatedPositions := l\<rparr>) = openFlags s"
  "openFlags (s\<lparr>camera_x := x\<rparr>) = openFlags s"
  by (simp_all add: openFlags_def)

lemma closeAll_openFlags [simp]:
  "openFlags (snd (closeAllOpenBooksWithPromise s)) = openFlags s"
  by (simp add: closeAllOpenBooksWithPromise_def Let_def split: option.splits)

lemma closeAll_fields [simp]:
  "isClosingFromScroll (snd (closeAllOpenBooksWithPromise s)) = isClosingFromScroll s"
  "pendings (snd (closeAllOpenBooksWithPromise s)) = pendings s"
  "canInteract (snd (closeAllOpenBooksWithPromise s)) = canInteract s"
  "scrollTrigger_enabled (snd (closeAllOpenBooksWithPromise s)) = scrollTrigger_enabled s"
  "lastProgress (snd (closeAllOpenBooksWithPromise s)) = lastProgress s"
  by (simp_all add: closeAllOpenBooksWithPromise_def Let_def split: option.splits)

lemma closeOthers_openFlags [simp]: "openFlags (closeOthers k i s) = openFlags s"
  by (simp add: closeOthers_def split: option.splits)

lemma closeOthers_flag [simp]:
  "isClosingFromScroll (closeOthers k i s) = isClosingFromScroll s"
  by (simp add: closeOthers_def split: option.splits)

lemma onCanvasClick_openFlags [simp]: "openFlags (onCanvasClick hit s) = openFlags s"
  by (simp add: onCanvasClick_def Let_def fold_field split: option.splits)

lemma onCanvasClick_flag [simp]:
  "isClosingFromScroll (onCanvasClick hit s) = isClosingFromScroll s"
  by (simp add: onCanvasClick_def Let_def fold_field split: option.splits)

lemma animateToFraction_flags [simp]:
  "isOpen (animateToFraction b f) = isOpen b"
  "isClickPlaying (animateToFraction b f) = isClickPlaying b"
  "openTimeline (animateToFraction b f) = openTimeline b"
  by (simp_all add: animateToFraction_def)

lemma bookAt_updates [simp]:
  "bookAt (s\<lparr>currentHoveredIndex := h\<rparr>) i = bookAt s i"
  "bookAt (s\<lparr>pendings := c\<rparr>) i = bookAt s i"
  "bookAt (s\<lparr>closeOps := a\<rparr>) i = bookAt s i"
  by (simp_all add: bookAt_def)

lemma setHoveredBook_openFlags [simp]: "openFlags (setHoveredBook i s) = openFlags s"
  by (simp add: setHoveredBook_def Let_def openFlags_setBook split: option.splits)

lemma clearHoveredBook_openFlags [simp]: "openFlags (clearHoveredBook s) = openFlags s"
  by (simp add: clearHoveredBook_def Let_def openFlags_setBook split: option.splits)

lemma hover_flag [simp]:
  "isClosingFromScroll (setHoveredBook i s) = isClosingFromScroll s"
  "isClosingFromScroll (clearHoveredBook s) = isClosingFromScroll s"
  by (simp_all add: setHoveredBook_def clearHoveredBook_def setBook_def Let_def split: option.splits)

lemma onCanvasMouseMove_openFlags [simp]: "openFlags (onCanvasMouseMove hit s) = openFlags s"
  by (simp add: onCanvasMouseMove_def split: option.splits)

lemma onCanvasMouseMove_flag [simp]:
  "isClosingFromScroll (onCanvasMouseMove hit s) = isClosingFromScroll s"
  by (simp add: onCanvasMouseMove_def split: option.splits)

subsection \<open>Scroll handler and continuations\<close>

lemma updateBooksFrom_openFlags:
  "updateBooksFrom progress i bs = Some bs' \<Longrightarrow>
   map (map_option isOpen) bs' = map (map_option isOpen) bs"
  by (induction progress i bs arbitrary: bs' rule: updateBooksFrom.induct)
     (auto simp: orbitWrite_def split: option.splits)

lemma updateBookPositions_openFlags:
  "updateBookPositions progress s = Some s' \<Longrightarrow> openFlags s' = openFlags s"
  by (auto simp: updateBookPositions_def openFlags_def updateBooksFrom_openFlags)

lemma updateBookPositions_fields:
  "updateBookPositions progress s = Some s' \<Longrightarrow>
   isClosingFromScroll s' = isClosingFromScroll s \<and> pendings s' = pendings s \<and>
   scrollTrigger_enabled s' = scrollTrigger_enabled s \<and> canInteract s' = canInteract s"
  by (auto simp: updateBookPositions_def)

lemma enterRecovery_facts:
  "openFlags (enterRecovery progress s) = openFlags s"
  "isClosingFromScroll (enterRecovery progress s)"
  "\<not> scrollTrigger_enabled (enterRecovery progress s)"
  "canInteract (enterRecovery progress s) = canInteract s"
  by (simp_all add: enterRecovery_def Let_def split_beta)

lemma onUpdate_openFlags:
  "onUpdate progress s = Some s' \<Longrightarrow> openFlags s' = openFlags s"
  by (auto simp: onUpdate_def Let_def enterRecovery_facts updateBookPositions_openFlags
        split: if_splits)

lemma recoveryThen_facts:
  "recoveryThen targetProgress s = Some s' \<Longrightarrow>
   openFlags s' = openFlags s \<and> isClosingFromScroll s' = isClosingFromScroll s \<and>
   scrollTrigger_enabled s' \<and>
   (\<exists>ts. pendings s' = pendings s @ [PositionTransition ts targetProgress])"
  by (auto simp: recoveryThen_def calculateBookPositionsForProgress_def Let_def)

lemma runPending_openFlags:
  "runPending p s = Some s' \<Longrightarrow> openFlags s' = openFlags s"
  by (auto simp: runPending_def positionTransition_onComplete_def scrollTween_onComplete_def
        Let_def dest: recoveryThen_facts split: if_splits pending.splits)

lemma step_openFlags:
  "step e s = Some s' \<Longrightarrow> (\<forall>dt. e \<noteq> Frame dt) \<Longrightarrow> openFlags s' = openFlags s"
  by (cases e) (auto simp: onUpdate_openFlags runPending_openFlags onLeaveBack_def
      closeAllOpenBooks_def scrollTween_onUpdate_def timeline_tick_def)

lemma updateBooksFrom_defined:
  "i + length bs \<le> books_length \<Longrightarrow> \<exists>bs'. updateBooksFrom progress i bs = Some bs'"
proof (induction bs arbitrary: i)
  case Nil
  then show ?case by simp
next
  case (Cons a bs)
  from Cons.prems have "Suc i + length bs \<le> books_length" by simp
  from Cons.IH [OF this] obtain bs' where r: "updateBooksFrom progress (Suc i) bs = Some bs'" ..
  from Cons.prems have "i < 4" by (simp add: books_length_def)
  then have p: "\<exists>xy. place progress i = Some xy"
    by (simp add: place_def angleConfigs_def ellipseConfigs_def Let_def)
  show ?case
  proof (cases a)
    case None
    with r show ?thesis by simp
  next
    case (Some b)
    with r p show ?thesis by auto
  qed
qed

lemma updateBooksFrom_all:
  "updateBooksFrom progress i bs = Some bs' \<Longrightarrow>
   length bs' = length bs \<and>
   (\<forall>j<length bs. case bs ! j of
      None \<Rightarrow> bs' ! j = None
    | Some b \<Rightarrow> \<exists>xy. place progress (i + j) = Some xy \<and>
                 bs' ! j = Some (orbitWrite progress (i + j) xy b))"
proof (induction progress i bs arbitrary: bs' rule: updateBooksFrom.induct)
  case (1 progress i)
  then show ?case by simp
next
  case (2 progress i bs)
  from "2.prems" obtain z where z: "updateBooksFrom progress (Suc i) bs = Some z" "bs' = None # z"
    by auto
  note IH = "2.IH" [OF z(1)]
  show ?case
  proof (intro conjI allI impI)
    show "length bs' = length (None # bs)" using IH z(2) by simp
  next
    fix j assume j: "j < length (None # bs)"
    show "case (None # bs) ! j of
            None \<Rightarrow> bs' ! j = None
          | Some b \<Rightarrow> \<exists>xy. place progress (i + j) = Some xy \<and>
                       bs' ! j = Some (orbitWrite progress (i + j) xy b)"
    proof (cases j)
      case 0
      then show ?thesis using z(2) by simp
    next
      case (Suc n)
      with j have "n < length bs" by simp
      with IH have "case bs ! n of
            None \<Rightarrow> z ! n = None
          | Some b \<Rightarrow> \<exists>xy. place progress (Suc i + n) = Some xy \<and>
                       z ! n = Some (orbitWrite progress (Suc i + n) xy b)"
        by blast
      then show ?thesis using Suc z(2) by (cases "bs ! n") simp_all
    qed
  qed
next
  case (3 progress i b bs)
  from "3.prems" obtain xy z where z: "place progress i = Some xy"
    "updateBooksFrom progress (Suc i) bs = Some z" "bs' = Some (orbitWrite progress i xy b) # z"
    by (auto split: option.splits)
  note IH = "3.IH" [OF z(1) z(2)]
  show ?case
  proof (intro conjI allI impI)
    show "length bs' = length (Some b # bs)" using IH z(3) by simp
  next
    fix j assume j: "j < length (Some b # bs)"
    show "case (Some b # bs) ! j of
            None \<Rightarrow> bs' ! j = None
          | Some b \<Rightarrow> \<exists>xy. place progress (i + j) = Some xy \<and>
                       bs' ! j = Some (orbitWrite progress (i + j) xy b)"
    proof (cases j)
      case 0
      then show ?thesis using z(1) z(3) by simp
    next
      case (Suc n)
      with j have "n < length bs" by simp
      with IH have "case bs ! n of
            None \<Rightarrow> z ! n = None
          | Some b \<Rightarrow> \<exists>xy. place progress (Suc i + n) = Some xy \<and>
                       z ! n = Some (orbitWrite progress (Suc i + n) xy b)"
        by blast
      then show ?thesis using Suc z(3) by (cases "bs ! n") simp_all
    qed
  qed
qed

lemma updateBooksFrom_nth:
  "updateBooksFrom progress i bs = Some bs' \<Longrightarrow> j < length bs \<Longrightarrow>
   length bs' = length bs \<and>
   (case bs ! j of
      None \<Rightarrow> bs' ! j = None
    | Some b \<Rightarrow> \<exists>xy. place progress (i + j) = Some xy \<and>
                 bs' ! j = Some (orbitWrite progress (i + j) xy b))"
  using updateBooksFrom_all by blast

lemmas scene_simps = demoScene_def loadedTexture_def newBookInstance_def books_length_def
  finalPositions_def bookAt_def upt_rec [of 0 "numeral n" for n] upt_rec [of "Suc n" for n]

lemma place_defined:
  "i < books_length \<Longrightarrow>
   place progress i =
     Some (centerX (ellipseConfigs ! i) + radiusX (ellipseConfigs ! i) *
             cos (start (angleConfigs ! i) + (endX (angleConfigs ! i) - start (angleConfigs ! i)) * progress),
           centerY (ellipseConfigs ! i) + radiusY (ellipseConfigs ! i) *
             sin (start (angleConfigs ! i) + (endY (angleConfigs ! i) - start (angleConfigs ! i)) * progress))"
proof -
  assume "i < books_length"
  then have "i < length angleConfigs \<and> i < length ellipseConfigs"
    by (simp add: books_length_def angleConfigs_def ellipseConfigs_def)
  then show ?thesis by (simp add: place_def Let_def)
qed

lemma map_filter_total:
  "(\<And>x. x \<in> set xs \<Longrightarrow> f x = Some (g x)) \<Longrightarrow> List.map_filter f xs = map g xs"
  by (induction xs) (simp_all add: List.map_filter_def)

lemma calc_positions:
  "fst (calculateBookPositionsForProgress progress s) =
     map (\<lambda>i. (centerX (ellipseConfigs ! i) + radiusX (ellipseConfigs ! i) *
             cos (start (angleConfigs ! i) + (endX (angleConfigs ! i) - start (angleConfigs ! i)) * progress),
           centerY (ellipseConfigs ! i) + radiusY (ellipseConfigs ! i) *
             sin (start (angleConfigs ! i) + (endY (angleConfigs ! i) - start (angleConfigs ! i)) * progress)))
       [0..<books_length]"
proof -
  have "List.map_filter (place progress) [0..<books_length] =
     map (\<lambda>i. (centerX (ellipseConfigs ! i) + radiusX (ellipseConfigs ! i) *
             cos (start (angleConfigs ! i) + (endX (angleConfigs ! i) - start (angleConfigs ! i)) * progress),
           centerY (ellipseConfigs ! i) + radiusY (ellipseConfigs ! i) *
             sin (start (angleConfigs ! i) + (endY (angleConfigs ! i) - start (angleConfigs ! i)) * progress)))
       [0..<books_length]"
    by (rule map_filter_total) (simp add: place_defined)
  then show ?thesis by (simp add: calculateBookPositionsForProgress_def Let_def)
qed

lemma openFlags_bookAt:
  assumes "openFlags s' = openFlags s" and "bookAt s i = Some b"
  shows "\<exists>b'. bookAt s' i = Some b' \<and> isOpen b' = isOpen b"
proof -
  from assms(2) have i: "i < length (bookInstances s)" and n: "bookInstances s ! i = Some b"
    by (auto simp: bookAt_def split: if_splits)
  from assms(1) have m: "map (map_option isOpen) (bookInstances s') = map (map_option isOpen) (bookInstances s)"
    by (simp add: openFlags_def)
  then have l: "length (bookInstances s') = length (bookInstances s)"
    by (rule map_eq_imp_length_eq)
  from m i l have "map_option isOpen (bookInstances s' ! i) = map_option isOpen (bookInstances s ! i)"
    by (metis nth_map)
  with n obtain b' where "bookInstances s' ! i = Some b'" "isOpen b' = isOpen b"
    by auto
  with i l show ?thesis by (simp add: bookAt_def)
qed

lemma toggle_keeps_isOpen:
  assumes "bookAt s i = Some b"
  shows "\<exists>t. bookAt (toggleBookAnimationWithCallback i cb s) i = Some t \<and> isOpen t = isOpen b \<and>
             (animationActions b \<noteq> [] \<longrightarrow> isClickPlaying t)"
proof (cases "animationActions b = []")
  case True
  with assms show ?thesis by (simp add: toggleBookAnimationWithCallback_def)
next
  case False
  with toggle_starts_click [OF assms False, of cb] show ?thesis by auto
qed

lemma bookState_settled:
  "(bookState b = Opening \<or> bookState b = Closing) = isClickPlaying b"
  "\<not> isClickPlaying b \<Longrightarrow> bookState b = Open \<or> bookState b = Closed"
  by (simp_all add: bookState_def)

lemma updateBookPositions_defined:
  "length (bookInstances s) \<le> books_length \<Longrightarrow> \<exists>u. updateBookPositions progress s = Some u"
  using updateBooksFrom_defined [of 0 "bookInstances s" progress]
  by (auto simp: updateBookPositions_def)

lemma onUpdate_cases:
  "reversalDetected progress s \<Longrightarrow>
     onUpdate progress s = Some ((enterRecovery progress s)\<lparr>lastProgress := progress\<rparr>)"
  "isClosingFromScroll s \<Longrightarrow> onUpdate progress s = Some (s\<lparr>lastProgress := progress\<rparr>)"
  "\<not> reversalDetected progress s \<Longrightarrow> \<not> isClosingFromScroll s \<Longrightarrow>
     onUpdate progress s =
       map_option (\<lambda>u. u\<lparr>canInteract := (progress = 1), lastProgress := progress\<rparr>)
         (updateBookPositions progress s)"
  by (auto simp: onUpdate_def Let_def enterRecovery_facts reversalDetected_def option.map_comp
        comp_def)

lemma step_keeps_flag:
  assumes "step e s = Some t" and "isClosingFromScroll s" and "\<not> isClosingFromScroll t"
  shows "\<exists>startScrollY endScrollY. e = Run (ScrollTween startScrollY endScrollY) \<and>
           ScrollTween startScrollY endScrollY \<in> set (pendings s) \<and> scrollY t = endScrollY"
proof (cases e)
  case (ScrollUpdate progress)
  with assms show ?thesis by (auto simp: onUpdate_cases(2))
next
  case (Run p)
  show ?thesis
  proof (cases p)
    case (ThenRecovery pr tp)
    with Run assms show ?thesis
      by (auto simp: runPending_def dest!: recoveryThen_facts split: if_splits)
  next
    case (PositionTransition ts tp)
    with Run assms show ?thesis
      by (auto simp: runPending_def positionTransition_onComplete_def Let_def split: if_splits)
  next
    case (ScrollTween a b)
    with Run assms show ?thesis
      by (auto simp: runPending_def scrollTween_onComplete_def split: if_splits)
  qed
qed (use assms in \<open>auto simp: onLeaveBack_def closeAllOpenBooks_def scrollTween_onUpdate_def
          timeline_tick_def split: if_splits\<close>)

lemma transitionTweens_defined:
  "i + length bs \<le> length ps \<Longrightarrow> \<exists>ts. transitionTweens tp ps i bs = Some ts"
proof (induction bs arbitrary: i)
  case Nil
  then show ?case by simp
next
  case (Cons a bs)
  then have "\<exists>ts. transitionTweens tp ps (Suc i) bs = Some ts" by simp
  with Cons.prems show ?case by (cases a) auto
qed

lemma recoveryThen_defined:
  assumes "length (bookInstances s) \<le> books_length"
  shows "\<exists>t. recoveryThen tp s = Some t"
proof -
  have "length (fst (calculateBookPositionsForProgress tp (s\<lparr>scrollTrigger_enabled := True\<rparr>)))
          = books_length"
    by (simp add: calc_positions)
  with assms transitionTweens_defined
    [of 0 "bookInstances s" "fst (calculateBookPositionsForProgress tp (s\<lparr>scrollTrigger_enabled := True\<rparr>))" tp]
  show ?thesis
    by (auto simp: recoveryThen_def Let_def split_beta calculateBookPositionsForProgress_def)
qed

lemma run_then:
  assumes "ThenRecovery pr tp \<in> set (pendings s)" and "promiseResolved pr s"
    and "length (bookInstances s) \<le> books_length"
  shows "\<exists>t ts. step (Run (ThenRecovery pr tp)) s = Some t \<and> scrollTrigger_enabled t \<and>
          PositionTransition ts tp \<in> set (pendings t) \<and>
          isClosingFromScroll t = isClosingFromScroll s"
proof -
  let ?s1 = "s\<lparr>pendings := remove1 (ThenRecovery pr tp) (pendings s)\<rparr>"
  from assms(3) have "length (bookInstances ?s1) \<le> books_length" by simp
  from recoveryThen_defined [OF this] obtain t where t: "recoveryThen tp ?s1 = Some t" ..
  from recoveryThen_facts [OF t] obtain ts where
    "scrollTrigger_enabled t" "isClosingFromScroll t = isClosingFromScroll s"
    "pendings t = pendings ?s1 @ [PositionTransition ts tp]"
    by auto
  with t assms(1,2) show ?thesis by (auto simp: runPending_def)
qed

lemma run_transition:
  "PositionTransition ts tp \<in> set (pendings s) \<Longrightarrow>
   \<exists>t. step (Run (PositionTransition ts tp)) s = Some t \<and>
       ScrollTween (scrollY s) (scroll_start s + (scroll_end s - scroll_start s) * tp)
         \<in> set (pendings t) \<and>
       isClosingFromScroll t = isClosingFromScroll s"
  by (simp add: runPending_def positionTransition_onComplete_def Let_def)

lemma run_scrollTween:
  "ScrollTween a b \<in> set (pendings s) \<Longrightarrow>
   \<exists>t. step (Run (ScrollTween a b)) s = Some t \<and> scrollY t = b \<and> \<not> isClosingFromScroll t"
  by (simp add: runPending_def scrollTween_onComplete_def)

lemma isAnyBookOpen_states:
  "isAnyBookOpen s =
     (\<exists>i b. bookAt s i = Some b \<and> (bookState b = Open \<or> bookState b = Closing))"
proof -
  have st: "(bookState b = Open \<or> bookState b = Closing) = isOpen b" for b
    by (simp add: bookState_def)
  have "isAnyBookOpen s = (\<exists>b. Some b \<in> set (bookInstances s) \<and> isOpen b)"
    by (auto simp: isAnyBookOpen_def list_ex_iff split: option.splits)
  also have "\<dots> = (\<exists>i b. bookAt s i = Some b \<and> isOpen b)"
    by (auto simp: in_set_conv_nth bookAt_def split: if_splits)
  finally show ?thesis by (simp add: st)
qed

subsection \<open>A stalled recovery stays stalled\<close>

lemma stalled_transfer:
  assumes "stalled s"
    and "isClosingFromScroll s' = isClosingFromScroll s"
    and "bookClosePromise s' = bookClosePromise s"
    and "checker s' = checker s"
    and "closeOps s' = closeOps s"
    and "pendings s' = pendings s"
    and "list_all timelineSilent (bookInstances s) \<Longrightarrow> list_all timelineSilent (bookInstances s')"
  shows "stalled s'"
proof -
  have "waitsUnresolved s' = waitsUnresolved s"
    using assms(5) by (auto simp: waitsUnresolved_def promiseResolved_def fun_eq_iff
        split: pending.splits promise.splits)
  with assms show ?thesis by (simp add: stalled_def)
qed

lemma silent_update:
  assumes "list_all timelineSilent bs" and "i < length bs" and "bs ! i = Some b"
    and "(case openTimeline b' of None \<Rightarrow> True | Some t \<Rightarrow> tl_callback t = None) =
         (case openTimeline b of None \<Rightarrow> True | Some t \<Rightarrow> tl_callback t = None)"
  shows "list_all timelineSilent (bs[i := Some b'])"
proof -
  from assms(1,2,3) have "timelineSilent (Some b)"
    by (metis list_all_length)
  with assms(4) have "timelineSilent (Some b')" by (simp add: timelineSilent_def)
  with assms(1) show ?thesis
    by (auto simp: list_all_iff dest!: set_update_subset_insert [THEN subsetD])
qed

lemma stalled_hover:
  assumes "stalled s"
  shows "stalled (setHoveredBook i s)" and "stalled (clearHoveredBook s)"
proof -
  show "stalled (setHoveredBook i s)"
    by (rule stalled_transfer [OF assms])
       (auto simp: setHoveredBook_def setBook_def bookAt_def Let_def
          intro!: silent_update split: option.splits if_splits)
  show "stalled (clearHoveredBook s)"
    by (rule stalled_transfer [OF assms])
       (auto simp: clearHoveredBook_def setBook_def bookAt_def Let_def
          intro!: silent_update split: option.splits if_splits)
qed

lemma hover_closeOps [simp]:
  "closeOps (setHoveredBook i s) = closeOps s"
  "closeOps (clearHoveredBook s) = closeOps s"
  by (simp_all add: setHoveredBook_def clearHoveredBook_def setBook_def Let_def split: option.splits)

lemma fold_invariant:
  "P s \<Longrightarrow> (\<And>x t. P t \<Longrightarrow> P (f x t)) \<Longrightarrow> P (fold f xs s)"
  by (induction xs arbitrary: s) simp_all

lemma animate_original:
  assumes "checker s = Original"
  shows "checker (animate dt s) = Original \<and> closeOps (animate dt s) = closeOps s \<and>
         bookClosePromise (animate dt s) = bookClosePromise s"
  unfolding animate_def
  by (rule fold_invariant [where P = "\<lambda>t. checker t = Original \<and> closeOps t = closeOps s \<and>
          bookClosePromise t = bookClosePromise s"])
     (auto simp: assms animateBook_def setBook_def Let_def split: option.splits)

lemma stalled_animate:
  assumes "stalled s"
  shows "stalled (animate dt s)"
proof (rule stalled_transfer [OF assms])
  from assms have "checker s = Original" by (simp add: stalled_def)
  from animate_original [OF this, of dt]
  show "bookClosePromise (animate dt s) = bookClosePromise s"
    "checker (animate dt s) = checker s" "closeOps (animate dt s) = closeOps s"
    using \<open>checker s = Original\<close> by simp_all
  show "list_all timelineSilent (bookInstances s) \<Longrightarrow>
        list_all timelineSilent (bookInstances (animate dt s))"
    using frameBook_flags
    by (auto simp: animate_books list_all_iff timelineSilent_def split: option.splits)
qed simp_all

lemma stalled_timeline:
  assumes "stalled s"
  shows "stalled (openTimeline_onComplete i s) \<and>
         closeOps (openTimeline_onComplete i s) = closeOps s"
    and "stalled (openTimeline_onReverseComplete i s) \<and>
         closeOps (openTimeline_onReverseComplete i s) = closeOps s"
proof -
  have "stalled (openTimeline_onComplete i s)"
    by (rule stalled_transfer [OF assms])
       (auto simp: openTimeline_onComplete_def setBook_def bookAt_def
          intro!: silent_update split: option.splits if_splits)
  then show "stalled (openTimeline_onComplete i s) \<and>
         closeOps (openTimeline_onComplete i s) = closeOps s"
    by (simp add: openTimeline_onComplete_def setBook_def split: option.splits)
  have quiet: "bookAt s i = Some b \<Longrightarrow> openTimeline b = Some t \<Longrightarrow> tl_callback t = None" for b t
    using assms
    by (auto simp: stalled_def bookAt_def list_all_length timelineSilent_def
        split: if_splits option.splits)
  have eq: "openTimeline_onReverseComplete i s =
      (case bookAt s i of None \<Rightarrow> s
       | Some b \<Rightarrow> (case openTimeline b of None \<Rightarrow> s
           | Some t \<Rightarrow> setBook i (b\<lparr>openTimeline := Some (t\<lparr>tl_paused := True, tl_progress := 0\<rparr>)\<rparr>) s))"
    using quiet
    by (auto simp: openTimeline_onReverseComplete_def callMaybe_def split: option.splits)
  have "stalled (openTimeline_onReverseComplete i s)"
    unfolding eq
    by (rule stalled_transfer [OF assms])
       (auto simp: setBook_def bookAt_def
          intro!: silent_update split: option.splits if_splits)
  then show "stalled (openTimeline_onReverseComplete i s) \<and>
         closeOps (openTimeline_onReverseComplete i s) = closeOps s"
    unfolding eq by (simp add: setBook_def split: option.splits)
qed

lemma stalled_step:
  assumes "stalled s"
  shows "\<exists>t. step e s = Some t \<and> stalled t \<and> closeOps t = closeOps s"
proof (cases e)
  case (ScrollUpdate progress)
  from assms have "isClosingFromScroll s" by (simp add: stalled_def)
  from onUpdate_cases(2) [OF this, of progress] ScrollUpdate
  have "step e s = Some (s\<lparr>lastProgress := progress\<rparr>)" by simp
  moreover have "stalled (s\<lparr>lastProgress := progress\<rparr>)"
    by (rule stalled_transfer [OF assms]) simp_all
  ultimately show ?thesis by simp
next
  case LeaveBack
  with assms show ?thesis
    by (auto simp: onLeaveBack_def closeAllOpenBooks_def closeAllOpenBooksWithPromise_def stalled_def)
next
  case (Click hit)
  with assms show ?thesis by (simp add: onCanvasClick_def stalled_def)
next
  case (MouseMove hit)
  with assms stalled_hover show ?thesis
    by (auto simp: onCanvasMouseMove_def split: option.splits)
next
  case MouseLeave
  with assms stalled_hover show ?thesis by simp
next
  case (Frame dt)
  from assms have "checker s = Original" by (simp add: stalled_def)
  with Frame stalled_animate [OF assms, of dt] animate_original [of s dt]
  show ?thesis by simp
next
  case (TimelineComplete i)
  with stalled_timeline(1) [OF assms, of i] show ?thesis by simp
next
  case (TimelineReverseComplete i)
  with stalled_timeline(2) [OF assms, of i] show ?thesis by simp
next
  case (Run p)
  have "p \<in> set (pendings s) \<Longrightarrow> waitsUnresolved s p"
    using assms by (simp add: stalled_def list_all_iff)
  then have "runPending p s = Some s"
    by (auto simp: runPending_def waitsUnresolved_def split: pending.splits)
  with Run assms show ?thesis by simp
next
  case (TimelineTick i p)
  have "stalled (timeline_tick i p s)"
    unfolding timeline_tick_def
    by (rule stalled_transfer [OF assms])
       (auto simp: updTimeline_def setBook_def bookAt_def
          intro!: silent_update split: option.splits if_splits)
  with TimelineTick show ?thesis by (simp add: timeline_tick_def)
next
  case (ScrollTweenUpdate a b c)
  have "ScrollTween a b \<in> set (pendings s) \<Longrightarrow> waitsUnresolved s (ScrollTween a b)"
    using assms by (simp add: stalled_def list_all_iff)
  then have "ScrollTween a b \<notin> set (pendings s)"
    by (auto simp: waitsUnresolved_def)
  with ScrollTweenUpdate assms show ?thesis by simp
qed

lemma stalled_run:
  "stalled s \<Longrightarrow> \<exists>t. run es s = Some t \<and> stalled t \<and> closeOps t = closeOps s"
proof (induction es arbitrary: s)
  case Nil
  then show ?case by simp
next
  case (Cons e es)
  from stalled_step [OF Cons.prems, of e] obtain u where
    u: "step e s = Some u" "stalled u" "closeOps u = closeOps s" by blast
  from Cons.IH [OF u(2)] u(1,3) show ?case by auto
qed

subsection \<open>What does hold of the aggregate close-all\<close>

lemma closeAll_pending_returns_same:
  "bookClosePromise s = Some k \<Longrightarrow> closeAllOpenBooksWithPromise s = (Aggregate k, s)"
  by (simp add: closeAllOpenBooksWithPromise_def)

lemma closeAll_nothing_open:
  "bookClosePromise s = None \<Longrightarrow> \<not> isAnyBookOpen s \<Longrightarrow>
   closeAllOpenBooksWithPromise s = (Resolved, s)"
  by (simp add: closeAllOpenBooksWithPromise_def)

lemma checkAllClosed_resolves_at_count:
  assumes "k < length (closeOps s)"
  shows "closedCount (closeOps (checkAllClosed k s) ! k) = Suc (closedCount (closeOps s ! k))"
    and "resolveCalls (closeOps (checkAllClosed k s) ! k) =
           (if openCount (closeOps s ! k) \<le> Suc (closedCount (closeOps s ! k))
            then Suc (resolveCalls (closeOps s ! k)) else resolveCalls (closeOps s ! k))"
  using assms by (simp_all add: checkAllClosed_def Let_def)

subsection \<open>Concrete runs\<close>

lemmas trace_simps = demoScene_def loadedTexture_def newBookInstance_def books_length_def
  finalPositions_def onUpdate_def reversalDetected_def isAnyBookOpen_def updateBookPositions_def
  place_def orbitWrite_def angleConfigs_def ellipseConfigs_def onCanvasClick_def
  toggleBookAnimationWithCallback_def bookAt_def setBook_def callMaybe_def buildOpenTimeline_def
  setAllActions_def closeOthers_def animate_def animateBook_def mixer_update_def
  checkAnimationProgress_def checkAction_def setAction_def clickPlayPercentage_def
  hoverPlayPercentage_def updTimeline_def timeline_tick_def enterRecovery_def closeAllOpenBooksWithPromise_def openBookIndices_def
  List.map_filter_def invokeCallback_def checkAllClosed_def onCanvasMouseMove_def
  setHoveredBook_def clearHoveredBook_def animateToFraction_def openTimeline_onComplete_def
  openTimeline_onReverseComplete_def openFlags_def clickFlags_def bookState_def
  upt_rec [of 0 "numeral n" for n] upt_rec [of "Suc n" for n] Let_def

text \<open>
  Reopening a book whose clip has closed while its timeline is still half way back:
  \<open>progress(0)\<close> makes the timeline call \<open>onReverseComplete\<close> inside the toggle, and the
  callback captured when the timeline was built is called at once.
\<close>

lemma reopen_on_half_reversed_timeline_calls_captured_callback:
  "callLog
     (toggleBookAnimationWithCallback 0 None
        (timeline_tick 0 (1 / 2)
           (animate 1
              (toggleBookAnimationWithCallback 0 None
                 (openTimeline_onComplete 0
                    (animate 1
                       (toggleBookAnimationWithCallback 0 (Some (External 1)) demoScene)))))))
     = [External 1]"
  by (simp add: trace_simps)

section \<open>The claims\<close>

text \<open>
  C1 fails on the code. Books 0 and 1 are both open when the scroll reverses, so the
  close-all expects two completions. In the frame in which both clips reach 0, the
  replacement installed for book 0 restores the class method into the method slot and
  thereby discards the replacement installed for book 1: one completion is counted, the
  promise is not resolved, and from then on no sequence of events changes the counters
  or clears the recovery flag.
\<close>

theorem close_all_of_two_books_counts_one_and_never_resolves:
  "\<exists>s0 s. run [ScrollUpdate 1, Click (Some 0), Click (Some 1), Frame 1] demoScene = Some s0 \<and>
     openFlags s0 = [Some True, Some True, Some False, Some False] \<and>
     run [ScrollUpdate (1 / 2), Frame 1] s0 = Some s \<and>
     openFlags s = [Some False, Some False, Some False, Some False] \<and>
     clickFlags s = [Some False, Some False, Some False, Some False] \<and>
     closeOps s = [\<lparr>closedCount = 1, openCount = 2, resolveCalls = 0\<rparr>] \<and>
     callLog s = [CheckAllClosed 0] \<and>
     bookClosePromise s = Some 0 \<and>
     pendings s = [ThenRecovery (Aggregate 0) (1 / 2)] \<and>
     (\<forall>es. \<exists>t. run es s = Some t \<and> closeOps t = closeOps s \<and> isClosingFromScroll t)"
proof -
  let ?a = "the (run [ScrollUpdate 1, Click (Some 0), Click (Some 1), Frame 1] demoScene)"
  let ?b = "the (run [ScrollUpdate (1 / 2), Frame 1] ?a)"
  have st: "stalled ?b"
    by (simp add: trace_simps stalled_def timelineSilent_def waitsUnresolved_def
          promiseResolved_def)
  have "\<forall>es. \<exists>t. run es ?b = Some t \<and> closeOps t = closeOps ?b \<and> isClosingFromScroll t"
    using stalled_run [OF st] by (auto simp: stalled_def)
  moreover have "run [ScrollUpdate 1, Click (Some 0), Click (Some 1), Frame 1] demoScene = Some ?a"
    by (simp add: trace_simps)
  moreover have "openFlags ?a = [Some True, Some True, Some False, Some False]"
    by (simp add: trace_simps)
  moreover have "run [ScrollUpdate (1 / 2), Frame 1] ?a = Some ?b"
    by (simp add: trace_simps)
  moreover have "openFlags ?b = [Some False, Some False, Some False, Some False]"
    by (simp add: trace_simps)
  moreover have "clickFlags ?b = [Some False, Some False, Some False, Some False]"
    by (simp add: trace_simps)
  moreover have "closeOps ?b = [\<lparr>closedCount = 1, openCount = 2, resolveCalls = 0\<rparr>]"
    by (simp add: trace_simps)
  moreover have "callLog ?b = [CheckAllClosed 0]"
    by (simp add: trace_simps)
  moreover have "bookClosePromise ?b = Some 0"
    by (simp add: trace_simps)
  moreover have "pendings ?b = [ThenRecovery (Aggregate 0) (1 / 2)]"
    by (simp add: trace_simps)
  ultimately show ?thesis
    by (intro exI [of _ ?a] exI [of _ ?b] conjI) assumption+
qed

text \<open>
  C2 fails on the code. With books 0 and 1 open, book 0 is toggled with callback 7 and
  book 1 with callback 8; after the frame in which both closes settle and after both
  timelines have completed their reverse, callback 7 was called once and callback 8 never
  (the defect of C1). And a callback passed to an opening toggle that builds the timeline
  is the one the timeline calls on every later reverse completion: callback 1 of the
  opening toggle is called when the close requested with callback 2 completes.
\<close>

theorem closing_callbacks_lost_or_stale:
  "\<exists>s t u. run [ScrollUpdate 1, Click (Some 0), Click (Some 1), Frame 1] demoScene = Some s \<and>
     openFlags s = [Some True, Some True, Some False, Some False] \<and>
     t = openTimeline_onReverseComplete 1 (openTimeline_onReverseComplete 0 (animate 1
           (toggleBookAnimationWithCallback 1 (Some (External 8))
             (toggleBookAnimationWithCallback 0 (Some (External 7)) s)))) \<and>
     openFlags t = [Some False, Some False, Some False, Some False] \<and>
     clickFlags t = [Some False, Some False, Some False, Some False] \<and>
     checker t = Original \<and>
     callLog t = [External 7] \<and>
     u = openTimeline_onComplete 0 (animate 1
           (toggleBookAnimationWithCallback 0 (Some (External 1)) demoScene)) \<and>
     openFlags u = [Some True, Some False, Some False, Some False] \<and>
     callLog u = [] \<and>
     callLog (animate 1 (toggleBookAnimationWithCallback 0 (Some (External 2)) u)) = [External 2] \<and>
     callLog (openTimeline_onReverseComplete 0
                (animate 1 (toggleBookAnimationWithCallback 0 (Some (External 2)) u)))
       = [External 2, External 1]"
proof -
  let ?a = "the (run [ScrollUpdate 1, Click (Some 0), Click (Some 1), Frame 1] demoScene)"
  let ?b = "openTimeline_onReverseComplete 1 (openTimeline_onReverseComplete 0 (animate 1
           (toggleBookAnimationWithCallback 1 (Some (External 8))
             (toggleBookAnimationWithCallback 0 (Some (External 7)) ?a))))"
  let ?c = "openTimeline_onComplete 0 (animate 1
           (toggleBookAnimationWithCallback 0 (Some (External 1)) demoScene))"
  have "run [ScrollUpdate 1, Click (Some 0), Click (Some 1), Frame 1] demoScene = Some ?a"
    by (simp add: trace_simps)
  moreover have "openFlags ?a = [Some True, Some True, Some False, Some False]"
    by (simp add: trace_simps)
  moreover have "?b = ?b" ..
  moreover have "openFlags ?b = [Some False, Some False, Some False, Some False]"
    by (simp add: trace_simps)
  moreover have "clickFlags ?b = [Some False, Some False, Some False, Some False]"
    by (simp add: trace_simps)
  moreover have "checker ?b = Original"
    by (simp add: trace_simps)
  moreover have "callLog ?b = [External 7]"
    by (simp add: trace_simps)
  moreover have "?c = ?c" ..
  moreover have "openFlags ?c = [Some True, Some False, Some False, Some False]"
    by (simp add: trace_simps)
  moreover have "callLog ?c = []"
    by (simp add: trace_simps)
  moreover have "callLog (animate 1 (toggleBookAnimationWithCallback 0 (Some (External 2)) ?c))
      = [External 2]"
    by (simp add: trace_simps)
  moreover have "callLog (openTimeline_onReverseComplete 0
                (animate 1 (toggleBookAnimationWithCallback 0 (Some (External 2)) ?c)))
       = [External 2, External 1]"
    by (simp add: trace_simps)
  ultimately show ?thesis
    by (intro exI [of _ ?a] exI [of _ ?b] exI [of _ ?c] conjI) assumption+
qed

text \<open>
  C3, as stated, fails in its trigger condition. Book 0 is opened and clicked again, so
  it is Closing (\<open>isOpen\<close> still set, \<open>isClickPlaying\<close> set) and no book is in the state Open;
  the scroll update to progress 0.5 nevertheless starts the recovery: it disables the
  trigger, sets the flag and issues a close-all that toggles the closing book again.
\<close>

theorem recovery_starts_with_closing_book_counterexample:
  "(case run [ScrollUpdate 1, Click (Some 0), Frame 1, Click (Some 0)] demoScene of
      None \<Rightarrow> False
    | Some s \<Rightarrow>
        map (map_option bookState) (bookInstances s)
          = [Some Closing, Some Closed, Some Closed, Some Closed] \<and>
        lastProgress s = 1 \<and> \<not> isClosingFromScroll s \<and> scrollTrigger_enabled s \<and>
        (case step (ScrollUpdate (1 / 2)) s of
           None \<Rightarrow> False
         | Some s' \<Rightarrow>
             isClosingFromScroll s' \<and> \<not> scrollTrigger_enabled s' \<and>
             pendings s' = [ThenRecovery (Aggregate 0) (1 / 2)] \<and>
             closeOps s' = [\<lparr>closedCount = 0, openCount = 1, resolveCalls = 0\<rparr>] \<and>
             checker s' = Patched (Patched Original 0 None) 0 (Some (CheckAllClosed 0))))"
  by (simp add: trace_simps)

text \<open>
  C3, amended: a scroll update on a scene with at most \<open>books_length\<close> slots returns and
  records the progress. It turns the flag \<open>isClosingFromScroll\<close> on exactly when the
  progress is below the last one, some book has its \<open>isOpen\<close> flag set (it is Open or
  Closing) and the flag was clear; then the result is the close-all run on the scene in
  which the scroll trigger is already disabled and the flag already set, with the \<open>then\<close>
  handler for this progress registered on the promise returned, and no placement update
  and no \<open>canInteract\<close> recomputation. With the flag set, the update records the progress
  and does nothing else. With the flag clear and no reversal, it is the placement update
  followed by \<open>canInteract = (progress = 1)\<close>. A step that clears the flag is the
  completion of a registered scroll tween, which puts the scroll offset at the tween's
  end; that tween was registered, with the end offset of the captured progress, by the
  completion of the position transition, which was registered by the \<open>then\<close> handler, and
  neither of these two changes the flag.
\<close>

theorem scroll_reversal_recovery_protocol:
  assumes len: "length (bookInstances s) \<le> books_length"
  shows
    "(isAnyBookOpen s =
        (\<exists>i b. bookAt s i = Some b \<and> (bookState b = Open \<or> bookState b = Closing))) \<and>
     (\<exists>s'. onUpdate progress s = Some s' \<and> lastProgress s' = progress \<and>
        ((\<not> isClosingFromScroll s \<and> isClosingFromScroll s') =
           (progress < lastProgress s \<and> isAnyBookOpen s \<and> \<not> isClosingFromScroll s)) \<and>
        (progress < lastProgress s \<and> isAnyBookOpen s \<and> \<not> isClosingFromScroll s \<longrightarrow>
           \<not> scrollTrigger_enabled s' \<and> canInteract s' = canInteract s \<and>
           s' = (let r = closeAllOpenBooksWithPromise
                           (s\<lparr>scrollTrigger_enabled := False, isClosingFromScroll := True\<rparr>)
                 in (snd r)\<lparr>pendings := pendings (snd r) @ [ThenRecovery (fst r) progress],
                            lastProgress := progress\<rparr>)) \<and>
        (isClosingFromScroll s \<longrightarrow> s' = s\<lparr>lastProgress := progress\<rparr>) \<and>
        (\<not> isClosingFromScroll s \<and> \<not> (progress < lastProgress s \<and> isAnyBookOpen s) \<longrightarrow>
           (\<exists>u. updateBookPositions progress s = Some u \<and>
                s' = u\<lparr>canInteract := (progress = 1), lastProgress := progress\<rparr>))) \<and>
     (isClosingFromScroll s \<and> step e s = Some t \<and> \<not> isClosingFromScroll t \<longrightarrow>
        (\<exists>startScrollY endScrollY. e = Run (ScrollTween startScrollY endScrollY) \<and>
           ScrollTween startScrollY endScrollY \<in> set (pendings s) \<and> scrollY t = endScrollY)) \<and>
     (ScrollTween fromY toY \<in> set (pendings s) \<longrightarrow>
        (\<exists>t. step (Run (ScrollTween fromY toY)) s = Some t \<and> scrollY t = toY \<and>
             \<not> isClosingFromScroll t)) \<and>
     (PositionTransition ts targetProgress \<in> set (pendings s) \<longrightarrow>
        (\<exists>t. step (Run (PositionTransition ts targetProgress)) s = Some t \<and>
             ScrollTween (scrollY s)
               (scroll_start s + (scroll_end s - scroll_start s) * targetProgress)
               \<in> set (pendings t) \<and>
             isClosingFromScroll t = isClosingFromScroll s)) \<and>
     (ThenRecovery pr targetProgress \<in> set (pendings s) \<and> promiseResolved pr s \<longrightarrow>
        (\<exists>t ts'. step (Run (ThenRecovery pr targetProgress)) s = Some t \<and>
             scrollTrigger_enabled t \<and> PositionTransition ts' targetProgress \<in> set (pendings t) \<and>
             isClosingFromScroll t = isClosingFromScroll s)) \<and>
     (ThenRecovery pr targetProgress \<in> set (pendings s) \<and> \<not> promiseResolved pr s \<longrightarrow>
        step (Run (ThenRecovery pr targetProgress)) s = Some s)"
proof -
  have upd: "\<exists>s'. onUpdate progress s = Some s' \<and> lastProgress s' = progress \<and>
        ((\<not> isClosingFromScroll s \<and> isClosingFromScroll s') =
           (progress < lastProgress s \<and> isAnyBookOpen s \<and> \<not> isClosingFromScroll s)) \<and>
        (progress < lastProgress s \<and> isAnyBookOpen s \<and> \<not> isClosingFromScroll s \<longrightarrow>
           \<not> scrollTrigger_enabled s' \<and> canInteract s' = canInteract s \<and>
           s' = (let r = closeAllOpenBooksWithPromise
                           (s\<lparr>scrollTrigger_enabled := False, isClosingFromScroll := True\<rparr>)
                 in (snd r)\<lparr>pendings := pendings (snd r) @ [ThenRecovery (fst r) progress],
                            lastProgress := progress\<rparr>)) \<and>
        (isClosingFromScroll s \<longrightarrow> s' = s\<lparr>lastProgress := progress\<rparr>) \<and>
        (\<not> isClosingFromScroll s \<and> \<not> (progress < lastProgress s \<and> isAnyBookOpen s) \<longrightarrow>
           (\<exists>u. updateBookPositions progress s = Some u \<and>
                s' = u\<lparr>canInteract := (progress = 1), lastProgress := progress\<rparr>))"
  proof (cases "reversalDetected progress s")
    case True
    then have c: "progress < lastProgress s" "isAnyBookOpen s" "\<not> isClosingFromScroll s"
      by (simp_all add: reversalDetected_def)
    have "enterRecovery progress s =
        (let r = closeAllOpenBooksWithPromise
                   (s\<lparr>scrollTrigger_enabled := False, isClosingFromScroll := True\<rparr>)
         in (snd r)\<lparr>pendings := pendings (snd r) @ [ThenRecovery (fst r) progress]\<rparr>)"
      by (simp add: enterRecovery_def Let_def split_beta)
    with c onUpdate_cases(1) [OF True] enterRecovery_facts [of progress s]
    show ?thesis by (simp add: Let_def)
  next
    case False
    show ?thesis
    proof (cases "isClosingFromScroll s")
      case True
      with onUpdate_cases(2) [OF True, of progress] show ?thesis by simp
    next
      case clear: False
      from updateBookPositions_defined [OF len] obtain u where
        u: "updateBookPositions progress s = Some u" ..
      from updateBookPositions_fields [OF u] have "\<not> isClosingFromScroll u"
        using clear by simp
      with onUpdate_cases(3) [OF False clear] u False clear show ?thesis
        by (auto simp: reversalDetected_def)
    qed
  qed
  have th: "ThenRecovery pr targetProgress \<in> set (pendings s) \<and> \<not> promiseResolved pr s \<longrightarrow>
        step (Run (ThenRecovery pr targetProgress)) s = Some s"
    by (simp add: runPending_def)
  from upd th step_keeps_flag [of e s t] run_scrollTween [of fromY toY s]
    run_transition [of ts targetProgress s] run_then [of pr targetProgress s] len
    isAnyBookOpen_states [of s]
  show ?thesis by blast
qed

theorem scroll_reversal_recovery_protocol_witness:
  "\<exists>s. run [ScrollUpdate 1, Click (Some 0), Frame 1] demoScene = Some s \<and>
     length (bookInstances s) \<le> books_length \<and>
     1 / 2 < lastProgress s \<and> isAnyBookOpen s \<and> \<not> isClosingFromScroll s \<and> canInteract s \<and>
     (\<exists>s'. onUpdate (1 / 2) s = Some s' \<and> lastProgress s' = 1 / 2 \<and> isClosingFromScroll s' \<and>
        \<not> scrollTrigger_enabled s' \<and> canInteract s' \<and>
        onUpdate (1 / 4) s' = Some (s'\<lparr>lastProgress := 1 / 4\<rparr>))"
proof -
  let ?a = "the (run [ScrollUpdate 1, Click (Some 0), Frame 1] demoScene)"
  have r: "run [ScrollUpdate 1, Click (Some 0), Frame 1] demoScene = Some ?a"
    by (simp add: trace_simps)
  have len: "length (bookInstances ?a) \<le> books_length"
    by (simp add: trace_simps)
  have c: "1 / 2 < lastProgress ?a" "isAnyBookOpen ?a" "\<not> isClosingFromScroll ?a" "canInteract ?a"
    by (simp_all add: trace_simps)
  from scroll_reversal_recovery_protocol [OF len, of "1 / 2"] c
  obtain s' where s': "onUpdate (1 / 2) ?a = Some s'" "lastProgress s' = 1 / 2"
    "isClosingFromScroll s'" "\<not> scrollTrigger_enabled s'" "canInteract s'"
    by blast
  have len': "length (bookInstances s') \<le> books_length"
    using onUpdate_openFlags [OF s'(1)] len
    by (metis length_map openFlags_def)
  from scroll_reversal_recovery_protocol [OF len', of "1 / 4"] s'(3)
  have "onUpdate (1 / 4) s' = Some (s'\<lparr>lastProgress := 1 / 4\<rparr>)"
    by auto
  with r len c s' show ?thesis by blast
qed

text \<open>
  C4, as stated, fails in its last sentence. After the click on book 0 at progress 1,
  the timeline of book 0 is running and holds a tween on the \<open>x\<close> position of book 1
  (GSAP writes the targets of a running timeline on every tick), while book 1 is neither
  open nor click-playing, so the scroll update to progress 0.5 writes its transform as
  well: here it changes its rotation.
\<close>

theorem orbit_and_foreign_timeline_counterexample:
  "(case run [ScrollUpdate 1, Click (Some 0)] demoScene of
      None \<Rightarrow> False
    | Some s \<Rightarrow>
        map_option (\<lambda>b. map_option (\<lambda>t. (tl_paused t, tl_tweens t)) (openTimeline b)) (bookAt s 0)
          = Some (Some (False,
              [RotationZTo 0 (1 / 2) 0,
               PositionTo 0 2 \<lparr>vec_x = 2 / 5, vec_y = 0, vec_z = 1 / 2\<rparr>,
               PositionXTo 1 3 (- 5), PositionXTo 2 3 (- 5), PositionXTo 3 3 (- 5)])) \<and>
        map_option (\<lambda>b. (isOpen b, isClickPlaying b)) (bookAt s 1) = Some (False, False) \<and>
        map_option scene_rotation (bookAt s 1)
          = Some \<lparr>vec_x = pi / 2, vec_y = 0, vec_z = - (48 * pi / 180)\<rparr> \<and>
        (case step (ScrollUpdate (1 / 2)) s of
           None \<Rightarrow> False
         | Some s' \<Rightarrow>
             map_option scene_rotation (bookAt s' 1)
               = Some \<lparr>vec_x = pi / 4, vec_y = 0, vec_z = - (24 * pi / 180)\<rparr> \<and>
             map_option scene_rotation (bookAt s' 1) \<noteq> map_option scene_rotation (bookAt s 1)))"
  by (simp add: trace_simps degToRad_def)

text \<open>
  C4, amended: a scroll-driven orbit placement update returns for a scene with at most
  \<open>books_length\<close> slots, and for every loaded book: if \<open>isOpen\<close> or \<open>isClickPlaying\<close> is set,
  the book (position and rotation included) is exactly as before; otherwise its position
  and rotation are the orbit placement for the progress and the slot (\<open>z\<close> kept). So the
  orbit placement never writes the transform of a book that is open or under its own
  click transition; nothing is said about the timelines of other books.
\<close>

theorem orbit_update_respects_click_state:
  assumes len: "length (bookInstances s) \<le> books_length"
    and bk: "bookAt s i = Some b"
  shows "\<exists>s' xy. updateBookPositions progress s = Some s' \<and> place progress i = Some xy \<and>
     (isOpen b \<or> isClickPlaying b \<longrightarrow> bookAt s' i = Some b) \<and>
     (\<not> isOpen b \<and> \<not> isClickPlaying b \<longrightarrow>
        bookAt s' i = Some (b\<lparr>scene_position :=
                                 \<lparr>vec_x = fst xy, vec_y = snd xy, vec_z = vec_z (scene_position b)\<rparr>,
                               scene_rotation :=
                                 \<lparr>vec_x = progress * degToRad 90, vec_y = 0,
                                  vec_z = progress * degToRad (- 28 - real i * 20)\<rparr>\<rparr>))"
proof -
  from len obtain bs' where u: "updateBooksFrom progress 0 (bookInstances s) = Some bs'"
    using updateBooksFrom_defined [of 0 "bookInstances s" progress] by auto
  from bk have i: "i < length (bookInstances s)" and nth: "bookInstances s ! i = Some b"
    by (auto simp: bookAt_def split: if_splits)
  from updateBooksFrom_nth [OF u i] nth obtain xy where
    l: "length bs' = length (bookInstances s)" and p: "place progress i = Some xy"
    and w: "bs' ! i = Some (orbitWrite progress i xy b)"
    by auto
  have "updateBookPositions progress s = Some (s\<lparr>camera_x := 14 / 10 - progress, bookInstances := bs'\<rparr>)"
    by (simp add: updateBookPositions_def u)
  moreover have "bookAt (s\<lparr>camera_x := 14 / 10 - progress, bookInstances := bs'\<rparr>) i
      = Some (orbitWrite progress i xy b)"
    using i l w by (simp add: bookAt_def)
  ultimately show ?thesis
    using p by (auto simp: orbitWrite_def)
qed

theorem orbit_update_respects_click_state_witness:
  "length (bookInstances demoScene) \<le> books_length \<and>
   bookAt demoScene 2 = Some (newBookInstance 2 [1]) \<and>
   (\<exists>s' xy. updateBookPositions (1 / 2) demoScene = Some s' \<and> place (1 / 2) 2 = Some xy \<and>
      bookAt s' 2 = Some ((newBookInstance 2 [1])\<lparr>scene_position :=
                 \<lparr>vec_x = fst xy, vec_y = snd xy, vec_z = 25 / 100\<rparr>,
               scene_rotation :=
                 \<lparr>vec_x = 1 / 2 * degToRad 90, vec_y = 0, vec_z = 1 / 2 * degToRad (- 68)\<rparr>\<rparr>))"
proof -
  have l: "length (bookInstances demoScene) \<le> books_length"
    by (simp add: scene_simps)
  have b: "bookAt demoScene 2 = Some (newBookInstance 2 [1])"
    by (simp add: scene_simps)
  have f: "\<not> isOpen (newBookInstance 2 [1]) \<and> \<not> isClickPlaying (newBookInstance 2 [1])"
    "vec_z (scene_position (newBookInstance 2 [1])) = 25 / 100"
    by (simp_all add: newBookInstance_def finalPositions_def)
  from orbit_update_respects_click_state [OF l b, of "1 / 2"] f l b
  show ?thesis by auto
qed

text \<open>
  C5 fails on the code for a book with more than one clip. Book 0 has two clips of
  duration 1; 0.95 seconds after the opening click both have passed the forward limit
  0.9. The check clamps the first clip and clears \<open>isClickPlaying\<close>, so the click branch
  is skipped for the second clip: it is left unpaused at 0.95, above the limit.
\<close>

theorem later_clips_are_not_clamped:
  "\<exists>s b. run [ScrollUpdate 1, Click (Some 0), Frame (95 / 100)]
            (loadedTexture [Some [1, 1], Some [1], Some [1], Some [1]] 0 3000) = Some s \<and>
     bookAt s 0 = Some b \<and> isOpen b \<and> \<not> isClickPlaying b \<and> \<not> isHoverPlaying b \<and>
     map action (animationActions b) =
       [\<lparr>time = 9 / 10, timeScale = 1, paused = True\<rparr>,
        \<lparr>time = 95 / 100, timeScale = 1, paused = False\<rparr>] \<and>
     map originalDuration (animationActions b) = [1, 1]"
proof -
  let ?a = "the (run [ScrollUpdate 1, Click (Some 0), Frame (95 / 100)]
            (loadedTexture [Some [1, 1], Some [1], Some [1], Some [1]] 0 3000))"
  let ?b = "the (bookAt ?a 0)"
  have "run [ScrollUpdate 1, Click (Some 0), Frame (95 / 100)]
            (loadedTexture [Some [1, 1], Some [1], Some [1], Some [1]] 0 3000) = Some ?a"
    by (simp add: trace_simps)
  moreover have "bookAt ?a 0 = Some ?b"
    by (simp add: trace_simps)
  moreover have "isOpen ?b" "\<not> isClickPlaying ?b" "\<not> isHoverPlaying ?b"
    by (simp_all add: trace_simps)
  moreover have "map action (animationActions ?b) =
       [\<lparr>time = 9 / 10, timeScale = 1, paused = True\<rparr>,
        \<lparr>time = 95 / 100, timeScale = 1, paused = False\<rparr>]"
    by (simp add: trace_simps)
  moreover have "map originalDuration (animationActions ?b) = [1, 1]"
    by (simp add: trace_simps)
  ultimately show ?thesis
    by (intro exI [of _ ?a] exI [of _ ?b] conjI) assumption+
qed

text \<open>
  C6 fails on the code for hover routing. Book 0 is open and the scroll reverses to
  progress 0.5: the recovery is in flight, \<open>canInteract\<close> is still true from progress 1.
  A click is ignored, but a pointer move over book 1 changes the hovered index and
  starts the hover animation of book 1.
\<close>

theorem hover_is_routed_during_recovery:
  "\<exists>s. run [ScrollUpdate 1, Click (Some 0), Frame 1, ScrollUpdate (1 / 2)] demoScene = Some s \<and>
     isClosingFromScroll s \<and> canInteract s \<and> lastProgress s = 1 / 2 \<and>
     currentHoveredIndex s = - 1 \<and>
     step (Click (Some 1)) s = Some s \<and>
     map_option currentHoveredIndex (step (MouseMove (Some 1)) s) = Some 1 \<and>
     map_option (\<lambda>t. map_option isHoverPlaying (bookAt t 1)) (step (MouseMove (Some 1)) s)
       = Some (Some True) \<and>
     map_option (\<lambda>t. map_option isHoverPlaying (bookAt t 1)) (Some s) = Some (Some False)"
proof -
  let ?a = "the (run [ScrollUpdate 1, Click (Some 0), Frame 1, ScrollUpdate (1 / 2)] demoScene)"
  have "run [ScrollUpdate 1, Click (Some 0), Frame 1, ScrollUpdate (1 / 2)] demoScene = Some ?a"
    by (simp add: trace_simps)
  moreover have "isClosingFromScroll ?a" "canInteract ?a" "lastProgress ?a = 1 / 2"
    "currentHoveredIndex ?a = - 1"
    by (simp_all add: trace_simps)
  moreover have "step (Click (Some 1)) ?a = Some ?a"
    by (simp add: trace_simps)
  moreover have "map_option currentHoveredIndex (step (MouseMove (Some 1)) ?a) = Some 1"
    by (simp add: trace_simps)
  moreover have "map_option (\<lambda>t. map_option isHoverPlaying (bookAt t 1)) (step (MouseMove (Some 1)) ?a)
       = Some (Some True)"
    by (simp add: trace_simps)
  moreover have "map_option (\<lambda>t. map_option isHoverPlaying (bookAt t 1)) (Some ?a) = Some (Some False)"
    by (simp add: trace_simps)
  ultimately show ?thesis
    by (intro exI [of _ ?a] conjI) assumption+
qed

text \<open>
  C7, as stated, fails: \<open>calculateBookPositionsForProgress\<close> writes the positions it
  computed into \<open>lastCalculatedPositions\<close>, so it does change state outside its result.
\<close>

theorem calculate_writes_cache_counterexample:
  "lastCalculatedPositions (snd (calculateBookPositionsForProgress 0 demoScene))
     \<noteq> lastCalculatedPositions demoScene"
  by (simp add: calculateBookPositionsForProgress_def scene_simps place_def angleConfigs_def ellipseConfigs_def
        List.map_filter_def Let_def)

text \<open>
  C7, amended: the positions returned depend on the progress only (not on the scene),
  the scene is left as it was except that \<open>lastCalculatedPositions\<close> now holds the
  returned list, the entry for slot \<open>i\<close> is the placement that the orbit update uses, and
  at progress 0 and 1 it is the point of the slot's ellipse at the configured start
  angle, respectively at the configured end angles \<open>endX\<close> and \<open>endY\<close>.
\<close>

theorem placement_depends_on_progress_only:
  assumes "i < books_length"
  shows "fst (calculateBookPositionsForProgress progress s) =
           fst (calculateBookPositionsForProgress progress s') \<and>
         snd (calculateBookPositionsForProgress progress s) =
           s\<lparr>lastCalculatedPositions := fst (calculateBookPositionsForProgress progress s)\<rparr> \<and>
         place progress i = Some (fst (calculateBookPositionsForProgress progress s) ! i) \<and>
         fst (calculateBookPositionsForProgress 0 s) ! i =
           (centerX (ellipseConfigs ! i) + radiusX (ellipseConfigs ! i) * cos (start (angleConfigs ! i)),
            centerY (ellipseConfigs ! i) + radiusY (ellipseConfigs ! i) * sin (start (angleConfigs ! i))) \<and>
         fst (calculateBookPositionsForProgress 1 s) ! i =
           (centerX (ellipseConfigs ! i) + radiusX (ellipseConfigs ! i) * cos (endX (angleConfigs ! i)),
            centerY (ellipseConfigs ! i) + radiusY (ellipseConfigs ! i) * sin (endY (angleConfigs ! i)))"
proof -
  have l: "i < length angleConfigs" "i < length ellipseConfigs"
    using assms by (simp_all add: books_length_def angleConfigs_def ellipseConfigs_def)
  have 1: "fst (calculateBookPositionsForProgress progress s) =
           fst (calculateBookPositionsForProgress progress s')"
    by (simp add: calc_positions)
  have 2: "snd (calculateBookPositionsForProgress progress s) =
           s\<lparr>lastCalculatedPositions := fst (calculateBookPositionsForProgress progress s)\<rparr>"
    by (simp add: calculateBookPositionsForProgress_def Let_def)
  have 3: "place progress i = Some (fst (calculateBookPositionsForProgress progress s) ! i)"
    using assms by (simp add: calc_positions place_defined)
  have 4: "fst (calculateBookPositionsForProgress 0 s) ! i =
           (centerX (ellipseConfigs ! i) + radiusX (ellipseConfigs ! i) * cos (start (angleConfigs ! i)),
            centerY (ellipseConfigs ! i) + radiusY (ellipseConfigs ! i) * sin (start (angleConfigs ! i)))"
    using assms by (simp add: calc_positions Let_def)
  have 5: "fst (calculateBookPositionsForProgress 1 s) ! i =
           (centerX (ellipseConfigs ! i) + radiusX (ellipseConfigs ! i) * cos (endX (angleConfigs ! i)),
            centerY (ellipseConfigs ! i) + radiusY (ellipseConfigs ! i) * sin (endY (angleConfigs ! i)))"
    using assms by (simp add: calc_positions Let_def)
  from 1 2 3 4 5 show ?thesis by blast
qed

theorem placement_depends_on_progress_only_witness:
  "(0::nat) < books_length \<and>
   fst (calculateBookPositionsForProgress 0 demoScene) ! 0 = (- 13 / 10, 0) \<and>
   fst (calculateBookPositionsForProgress 1 demoScene) ! 0 =
     (13 / 10 * cos (pi * (22 / 10)), - (7 / 10 * sin (pi * (214 / 100))))"
proof -
  have h: "(0::nat) < books_length" by (simp add: books_length_def)
  from placement_depends_on_progress_only [OF h, of 0 demoScene demoScene] h
  show ?thesis by (simp add: angleConfigs_def ellipseConfigs_def)
qed

text \<open>
  C8 fails on the code. Book 0 is clicked and, while it is still opening, book 1
  (closed) is clicked: the scan after the primary toggle looks at \<open>isOpen\<close> only, so book 0
  is not toggled. When both transitions have settled, books 0 and 1 are both open, and
  further frames change nothing.
\<close>

theorem click_while_other_book_opens_leaves_two_open:
  "\<exists>s0 s. run [ScrollUpdate 1, Click (Some 0)] demoScene = Some s0 \<and>
     map (map_option bookState) (bookInstances s0) =
       [Some Opening, Some Closed, Some Closed, Some Closed] \<and>
     run [Click (Some 1), Frame 1] s0 = Some s \<and>
     map (map_option bookState) (bookInstances s) =
       [Some Open, Some Open, Some Closed, Some Closed] \<and>
     run [Frame 1, Frame 1] s = Some s"
proof -
  let ?a = "the (run [ScrollUpdate 1, Click (Some 0)] demoScene)"
  let ?b = "the (run [Click (Some 1), Frame 1] ?a)"
  have "run [ScrollUpdate 1, Click (Some 0)] demoScene = Some ?a"
    by (simp add: trace_simps)
  moreover have "map (map_option bookState) (bookInstances ?a) =
       [Some Opening, Some Closed, Some Closed, Some Closed]"
    by (simp add: trace_simps)
  moreover have "run [Click (Some 1), Frame 1] ?a = Some ?b"
    by (simp add: trace_simps)
  moreover have "map (map_option bookState) (bookInstances ?b) =
       [Some Open, Some Open, Some Closed, Some Closed]"
    by (simp add: trace_simps)
  moreover have "run [Frame 1, Frame 1] ?b = Some ?b"
    by (simp add: trace_simps)
  ultimately show ?thesis
    by (intro exI [of _ ?a] exI [of _ ?b] conjI) assumption+
qed

text \<open>
  C9: when the slot is empty (or outside the array) or its book has no animation clip,
  the toggle without a callback returns the scene unchanged, and the toggle with a
  callback does nothing but call it: once (one new entry in the call log), with the
  books and the method slot untouched.
\<close>

theorem toggle_without_clips_only_calls_back:
  assumes "bookAt s i = None \<or> (\<exists>b. bookAt s i = Some b \<and> animationActions b = [])"
  shows "toggleBookAnimationWithCallback i None s = s \<and>
         toggleBookAnimationWithCallback i (Some c) s = invokeCallback c s \<and>
         callLog (invokeCallback c s) = callLog s @ [c] \<and>
         bookInstances (invokeCallback c s) = bookInstances s \<and>
         checker (invokeCallback c s) = checker s"
  using assms
  by (auto simp: toggleBookAnimationWithCallback_def callMaybe_def invokeCallback_def
        checkAllClosed_def Let_def split: callback.splits)

theorem toggle_without_clips_only_calls_back_witness:
  "bookAt demoScene 7 = None \<and>
   toggleBookAnimationWithCallback 7 None demoScene = demoScene \<and>
   callLog (toggleBookAnimationWithCallback 7 (Some (External 3)) demoScene) = [External 3] \<and>
   bookInstances (toggleBookAnimationWithCallback 7 (Some (External 3)) demoScene) =
     bookInstances demoScene \<and>
   map_option animationActions (bookAt (loadedTexture [Some [], Some [1], None, Some [1]] 0 3000) 0)
     = Some [] \<and>
   toggleBookAnimationWithCallback 0 None (loadedTexture [Some [], Some [1], None, Some [1]] 0 3000)
     = loadedTexture [Some [], Some [1], None, Some [1]] 0 3000 \<and>
   callLog (toggleBookAnimationWithCallback 0 (Some (External 4))
              (loadedTexture [Some [], Some [1], None, Some [1]] 0 3000)) = [External 4]"
proof -
  let ?t = "loadedTexture [Some [], Some [1], None, Some [1]] 0 3000"
  have h: "bookAt demoScene 7 = None" by (simp add: scene_simps)
  then have "bookAt demoScene 7 = None \<or>
      (\<exists>b. bookAt demoScene 7 = Some b \<and> animationActions b = [])" by simp
  note a = toggle_without_clips_only_calls_back [OF this, of "External 3"]
  have g: "bookAt ?t 0 = Some (newBookInstance 0 [])" by (simp add: scene_simps)
  have e: "animationActions (newBookInstance 0 []) = []" by (simp add: newBookInstance_def)
  from g e have "bookAt ?t 0 = None \<or> (\<exists>b. bookAt ?t 0 = Some b \<and> animationActions b = [])"
    by simp
  note b = toggle_without_clips_only_calls_back [OF this, of "External 4"]
  have l: "callLog demoScene = []" "callLog ?t = []"
    by (simp_all add: demoScene_def loadedTexture_def)
  from a b h g e l show ?thesis by simp
qed

text \<open>
  C10: over every step of the scene, a loaded book stays loaded, and if its \<open>isOpen\<close> flag
  changed, the step was an animation frame, the book is the result of the clamp check on
  the advanced book, some clip met a click-mode limit, \<open>isClickPlaying\<close> was set before and
  is clear after. A toggle (of any slot, with any callback) changes no \<open>isOpen\<close> flag, and
  the toggle of a loaded book with clips sets its \<open>isClickPlaying\<close>. The derived states
  Opening and Closing are exactly the states with \<open>isClickPlaying\<close> set; with it clear
  the book is Open or Closed.
\<close>

theorem isOpen_changes_only_in_clamp_check:
  assumes st: "step e s = Some s'" and bk: "bookAt s i = Some b"
  shows "\<exists>b'. bookAt s' i = Some b' \<and>
     (isOpen b' \<noteq> isOpen b \<longrightarrow>
        (\<exists>dt. e = Frame dt \<and> b' = checkAnimationProgress (mixer_update dt b) \<and>
              (\<exists>a \<in> set (animationActions (mixer_update dt b)). crossesClickLimit a)) \<and>
        isClickPlaying b \<and> \<not> isClickPlaying b') \<and>
     ((bookState b' = Opening \<or> bookState b' = Closing) = isClickPlaying b') \<and>
     (\<not> isClickPlaying b' \<longrightarrow> bookState b' = Open \<or> bookState b' = Closed) \<and>
     openFlags (toggleBookAnimationWithCallback j cb s) = openFlags s \<and>
     (\<exists>t. bookAt (toggleBookAnimationWithCallback i cb s) i = Some t \<and> isOpen t = isOpen b \<and>
          (animationActions b \<noteq> [] \<longrightarrow> isClickPlaying t))"
proof (cases "\<exists>dt. e = Frame dt")
  case True
  then obtain dt where e: "e = Frame dt" ..
  with st have s': "s' = animate dt s" by simp
  from bk have i: "i < length (bookInstances s)" and n: "bookInstances s ! i = Some b"
    by (auto simp: bookAt_def split: if_splits)
  have b': "bookAt s' i = Some (frameBook dt b)"
    using i n by (simp add: s' bookAt_def animate_books)
  have ch: "isOpen (frameBook dt b) \<noteq> isOpen b \<longrightarrow>
      frameBook dt b = checkAnimationProgress (mixer_update dt b)"
    by (simp add: frameBook_def)
  from b' e ch frameBook_flags [of dt b] toggle_keeps_isOpen [OF bk, of cb]
    bookState_settled [of "frameBook dt b"]
  show ?thesis by auto
next
  case False
  with st have "openFlags s' = openFlags s" by (simp add: step_openFlags)
  from openFlags_bookAt [OF this bk] obtain b' where "bookAt s' i = Some b'" "isOpen b' = isOpen b"
    by blast
  with toggle_keeps_isOpen [OF bk, of cb] bookState_settled [of b']
  show ?thesis by auto
qed

theorem isOpen_changes_only_in_clamp_check_witness:
  "\<exists>s s' b b'. run [ScrollUpdate 1, Click (Some 0)] demoScene = Some s \<and>
     step (Frame 1) s = Some s' \<and> bookAt s 0 = Some b \<and> bookAt s' 0 = Some b' \<and>
     \<not> isOpen b \<and> isOpen b' \<and> isClickPlaying b \<and> \<not> isClickPlaying b' \<and>
     b' = checkAnimationProgress (mixer_update 1 b) \<and>
     bookState b = Opening \<and> bookState b' = Open"
proof -
  let ?a = "the (run [ScrollUpdate 1, Click (Some 0)] demoScene)"
  let ?b = "the (bookAt ?a 0)"
  have r: "run [ScrollUpdate 1, Click (Some 0)] demoScene = Some ?a"
    by (simp add: trace_simps)
  have st: "step (Frame 1) ?a = Some (animate 1 ?a)" by simp
  have bk: "bookAt ?a 0 = Some ?b"
    by (simp add: trace_simps)
  have o: "\<not> isOpen ?b" "bookState ?b = Opening"
    by (simp_all add: trace_simps)
  have o': "map_option isOpen (bookAt (animate 1 ?a) 0) = Some True"
    by (simp add: trace_simps)
  from isOpen_changes_only_in_clamp_check [OF st bk] obtain b' where
    b': "bookAt (animate 1 ?a) 0 = Some b'"
    "isOpen b' \<noteq> isOpen ?b \<longrightarrow>
        (\<exists>dt. Frame 1 = Frame dt \<and> b' = checkAnimationProgress (mixer_update dt ?b) \<and>
              (\<exists>a \<in> set (animationActions (mixer_update dt ?b)). crossesClickLimit a)) \<and>
        isClickPlaying ?b \<and> \<not> isClickPlaying b'"
    by blast
  from o' b'(1) have ob: "isOpen b'" by simp
  with o(1) b'(2) have f: "b' = checkAnimationProgress (mixer_update 1 ?b)"
    "isClickPlaying ?b" "\<not> isClickPlaying b'"
    by auto
  from ob f(3) have "bookState b' = Open" by (simp add: bookState_def)
  with r st bk b'(1) o ob f show ?thesis by blast
qed

end
